theory Spec2Isabelle
  imports Main "HOL-Library.List_Lexorder"
begin

section \<open>Python values and exceptions\<close>

text \<open>
  The exceptions the two functions of \<^verbatim>\<open>circuit_optimization.py\<close> can raise.  The source
  has no \<^verbatim>\<open>raise\<close> statement and no \<^verbatim>\<open>try\<close>: every failure is an exception of a
  built-in operation (an index out of range, \<^verbatim>\<open>int\<close> of a non-number, \<^verbatim>\<open>int\<close> of
  an infinite float, opening a missing file, reading an unbound local) that
  leaves the function uncaught.
\<close>

datatype error =
    OverflowError
  | ValueError
  | IndexError
  | UnboundLocalError
  | FileNotFoundError

definition ebind :: "error + 'a \<Rightarrow> ('a \<Rightarrow> error + 'b) \<Rightarrow> error + 'b" where
  "ebind m f = (case m of Inl e \<Rightarrow> Inl e | Inr x \<Rightarrow> f x)"

text \<open>A comprehension whose element expression may raise: the first exception wins.\<close>

fun emap :: "('a \<Rightarrow> error + 'b) \<Rightarrow> 'a list \<Rightarrow> error + 'b list" where
  "emap f [] = Inr []"
| "emap f (x # xs) = ebind (f x) (\<lambda>y. ebind (emap f xs) (\<lambda>ys. Inr (y # ys)))"

text \<open>\<^verbatim>\<open>xs[i]\<close> for an index \<open>i \<ge> 0\<close>; every subscript of the source but one is of this kind.\<close>

definition get :: "'a list \<Rightarrow> nat \<Rightarrow> error + 'a" where
  "get xs i = (if i < length xs then Inr (xs ! i) else Inl IndexError)"

text \<open>\<^verbatim>\<open>xs[-2]\<close>, the one negative subscript (line 221).\<close>

definition get_from_end2 :: "'a list \<Rightarrow> error + 'a" where
  "get_from_end2 xs = (if 2 \<le> length xs then Inr (xs ! (length xs - 2)) else Inl IndexError)"

subsection \<open>\<^verbatim>\<open>str.split(' ')\<close>\<close>

text \<open>
  Splitting at every single space: consecutive spaces give empty fields, and the
  result always has at least one field.
\<close>

fun split_sp :: "string \<Rightarrow> string list" where
  "split_sp [] = [[]]"
| "split_sp (c # cs) =
     (if c = CHR '' '' then [] # split_sp cs
      else (case split_sp cs of [] \<Rightarrow> [[c]] | w # ws \<Rightarrow> (c # w) # ws))"

subsection \<open>\<^verbatim>\<open>int(s)\<close> of a string\<close>

text \<open>
  A \<open>char\<close> stands for the code point of the same number, so that a \<open>string\<close> is a Python
  string over the code points 0 to 255.

  \<^verbatim>\<open>int\<close> accepts surrounding whitespace, one sign, and decimal digits with single
  underscores between them.  Among the code points up to 255 the decimal digits are
  \<^verbatim>\<open>0\<close> to \<^verbatim>\<open>9\<close>, and the whitespace \<^verbatim>\<open>int\<close> strips is tab, line feed, vertical tab, form
  feed, carriage return, space, and the two code points 133 (next line) and 160 (no-break
  space); the separators 28 to 31, which \<^verbatim>\<open>str.strip\<close> removes, are not accepted by \<^verbatim>\<open>int\<close>.
  A literal of more than 4300 digits (leading zeros counted, underscores not) is refused
  with a \<^verbatim>\<open>ValueError\<close>: the default of \<^verbatim>\<open>sys.set_int_max_str_digits\<close> in the interpreters
  that have the limit (3.11 and the later releases of the older series).
\<close>

definition is_digit :: "char \<Rightarrow> bool" where
  "is_digit c = ((48::nat) \<le> of_char c \<and> of_char c \<le> (57::nat))"

definition digit_val :: "char \<Rightarrow> int" where
  "digit_val c = int (of_char c) - 48"

definition is_space :: "char \<Rightarrow> bool" where
  "is_space c = (of_char c \<in> {9, 10, 11, 12, 13, 32, 133, 160 :: nat})"

definition strip :: "string \<Rightarrow> string" where
  "strip s = rev (dropWhile is_space (rev (dropWhile is_space s)))"

fun more_digits :: "int \<Rightarrow> string \<Rightarrow> int option" where
  "more_digits acc [] = Some acc"
| "more_digits acc [c] = (if is_digit c then Some (10 * acc + digit_val c) else None)"
| "more_digits acc (c # d # cs) =
     (if is_digit c then more_digits (10 * acc + digit_val c) (d # cs)
      else if c = CHR ''_'' \<and> is_digit d then more_digits (10 * acc + digit_val d) cs
      else None)"

definition max_str_digits :: nat where
  "max_str_digits = 4300"

definition unsigned_int :: "string \<Rightarrow> error + int" where
  "unsigned_int s =
     (case s of
        [] \<Rightarrow> Inl ValueError
      | c # cs \<Rightarrow>
          if is_digit c
          then (case more_digits (digit_val c) cs of
                  None \<Rightarrow> Inl ValueError
                | Some v \<Rightarrow>
                    if max_str_digits < length (filter is_digit s) then Inl ValueError
                    else Inr v)
          else Inl ValueError)"

definition py_int :: "string \<Rightarrow> error + int" where
  "py_int s =
     (case strip s of
        [] \<Rightarrow> Inl ValueError
      | c # cs \<Rightarrow>
          if c = CHR ''-'' then ebind (unsigned_int cs) (\<lambda>v. Inr (- v))
          else if c = CHR ''+'' then unsigned_int cs
          else unsigned_int (c # cs))"

section \<open>The linear program\<close>

text \<open>
  A decision variable is identified by its name: \<^verbatim>\<open>u.{el}.{k}\<close>, \<^verbatim>\<open>v.{i}.{k}\<close>,
  \<^verbatim>\<open>p.{k}.{j}\<close>, \<^verbatim>\<open>r.{i}.{k}.{j}\<close>.  The constructors keep the fields of the name in
  the order of the name.
\<close>

datatype var =
    U_var nat nat
  | V_var nat nat
  | P_var nat nat
  | R_var nat nat nat

text \<open>
  Linear expressions, written the way the source writes them with the operators of the
  \<^verbatim>\<open>mip\<close> package (\<^verbatim>\<open>xsum\<close>, \<^verbatim>\<open>+\<close>, \<^verbatim>\<open>-\<close>, a number times an expression), and the two
  kinds of inequality the source adds to the model.
\<close>

datatype lexp =
    Num int
  | Var var
  | Times int lexp
  | Plus lexp lexp
  | Minus lexp lexp
  | Neg lexp
  | xsum "lexp list"

datatype constr =
    Ge lexp lexp
  | Le lexp lexp

record model =
  mvars :: "var list"
  objective :: lexp
  constrs :: "constr list"

definition Model :: model where
  "Model = \<lparr>mvars = [], objective = Num 0, constrs = []\<rparr>"

text \<open>The value of an expression and the truth of an inequality under an assignment.\<close>

fun eval :: "(var \<Rightarrow> int) \<Rightarrow> lexp \<Rightarrow> int" where
  "eval a (Num c) = c"
| "eval a (Var x) = a x"
| "eval a (Times c e) = c * eval a e"
| "eval a (Plus e f) = eval a e + eval a f"
| "eval a (Minus e f) = eval a e - eval a f"
| "eval a (Neg e) = - eval a e"
| "eval a (xsum es) = sum_list (map (eval a) es)"

fun holds :: "(var \<Rightarrow> int) \<Rightarrow> constr \<Rightarrow> bool" where
  "holds a (Ge e f) = (eval a f \<le> eval a e)"
| "holds a (Le e f) = (eval a e \<le> eval a f)"

text \<open>All variables are declared \<^verbatim>\<open>BINARY\<close>.\<close>

definition binary :: "(var \<Rightarrow> int) \<Rightarrow> bool" where
  "binary a = (\<forall>x. a x = 0 \<or> a x = 1)"

definition feasible :: "(var \<Rightarrow> int) \<Rightarrow> model \<Rightarrow> bool" where
  "feasible a M = (binary a \<and> list_all (holds a) (constrs M))"

section \<open>\<^verbatim>\<open>make_circuit_lp\<close>\<close>

subsection \<open>Lines 56 to 64: the inputs\<close>

text \<open>
  \<^verbatim>\<open>int(np.log2(len(truth)))\<close>: the logarithm of 0 is minus infinity, which \<^verbatim>\<open>int\<close>
  refuses; otherwise the float is truncated.  For a length below \<open>2 ^ 47\<close> the truncated
  float is the integer part of the binary logarithm, which is what \<open>ilog2\<close> computes.
\<close>

fun ilog2 :: "nat \<Rightarrow> nat" where
  "ilog2 l = (if l < 2 then 0 else Suc (ilog2 (l div 2)))"

definition int_log2 :: "nat \<Rightarrow> error + nat" where
  "int_log2 l = (if l = 0 then Inl OverflowError else Inr (ilog2 l))"

text \<open>\<^verbatim>\<open>[0 if i == 'NOT' else -1 for i in gates.split(' ')]\<close>\<close>

definition gate_marker :: "string \<Rightarrow> int" where
  "gate_marker i = (if i = ''NOT'' then 0 else - 1)"

definition gate_markers :: "string \<Rightarrow> int list" where
  "gate_markers gates = map gate_marker (split_sp gates)"

text \<open>
  \<^verbatim>\<open>itertools.product([0,1], repeat=n)\<close>, by the equation of its documentation
  (\<^verbatim>\<open>result = [x+[y] for x in result for y in pool]\<close>, once per repetition), and
  \<^verbatim>\<open>np.fliplr\<close>, which reverses every row.
\<close>

fun product_01 :: "nat \<Rightarrow> int list list" where
  "product_01 0 = [[]]"
| "product_01 (Suc n) = concat (map (\<lambda>x. map (\<lambda>y. x @ [y]) [0, 1]) (product_01 n))"

definition fliplr :: "'a list list \<Rightarrow> 'a list list" where
  "fliplr t = map rev t"

definition make_table :: "nat \<Rightarrow> int list list" where
  "make_table n = fliplr (product_01 n)"

subsection \<open>Lines 66 to 94: the variables and the objective\<close>

text \<open>
  Each family is a nested list built by \<^verbatim>\<open>append\<close> in nested \<^verbatim>\<open>for\<close> loops; every
  \<^verbatim>\<open>add_var\<close> also registers the variable in the model, in the order of the calls.
\<close>

definition alloc_U :: "nat \<Rightarrow> nat \<Rightarrow> var list list" where
  "alloc_U n R = map (\<lambda>el. map (\<lambda>k. U_var el k) [1..<R + 1]) [1..<n + 1]"

definition alloc_V :: "nat \<Rightarrow> var list list" where
  "alloc_V R = map (\<lambda>k. map (\<lambda>i. V_var i k) [1..<k]) [1..<R + 1]"

definition alloc_P :: "nat \<Rightarrow> nat \<Rightarrow> var list list" where
  "alloc_P n R = map (\<lambda>k. map (\<lambda>j. P_var k j) [1..<2 ^ n + 1]) [1..<R]"

definition alloc_r :: "nat \<Rightarrow> nat \<Rightarrow> var list list list" where
  "alloc_r n R =
     map (\<lambda>k. map (\<lambda>i. map (\<lambda>j. R_var i k j) [1..<2 ^ n + 1]) [1..<k]) [1..<R + 1]"

definition alloc_all :: "nat \<Rightarrow> nat \<Rightarrow> var list" where
  "alloc_all n R =
     concat (alloc_U n R) @ concat (alloc_V R) @ concat (alloc_P n R)
       @ concat (concat (alloc_r n R))"

text \<open>\<^verbatim>\<open>xsum(xsum(k for k in el) for el in U) + xsum(xsum(j for j in k) for k in V)\<close>\<close>

definition make_objective :: "var list list \<Rightarrow> var list list \<Rightarrow> lexp" where
  "make_objective U V =
     Plus (xsum (map (\<lambda>el. xsum (map Var el)) U)) (xsum (map (\<lambda>k. xsum (map Var k)) V))"

subsection \<open>Lines 96 to 128: the constraints\<close>

text \<open>
  The two sums every gate constraint is made of.  The subscripts are the lists' own
  (0-based): the caller passes \<open>j - 1\<close> and \<open>k - 1\<close>, or \<open>j\<close> and \<open>R - 1\<close> for the last gate.

  \<^verbatim>\<open>xsum(table[jj,el-1]*U[el-1][kk] for el in range(1,n+1))\<close>
\<close>

definition ext_sum ::
  "nat \<Rightarrow> int list list \<Rightarrow> var list list \<Rightarrow> nat \<Rightarrow> nat \<Rightarrow> error + lexp" where
  "ext_sum n table U jj kk =
     ebind (emap (\<lambda>el.
              ebind (ebind (get table jj) (\<lambda>row. get row (el - 1))) (\<lambda>t.
              ebind (ebind (get U (el - 1)) (\<lambda>row. get row kk)) (\<lambda>x.
              Inr (Times t (Var x)))))
            [1..<n + 1])
       (\<lambda>es. Inr (xsum es))"

text \<open>\<^verbatim>\<open>xsum(r[kk][i-1][jj] for i in range(1,hi))\<close>\<close>

definition int_sum :: "var list list list \<Rightarrow> nat \<Rightarrow> nat \<Rightarrow> nat \<Rightarrow> error + lexp" where
  "int_sum r kk hi jj =
     ebind (emap (\<lambda>i.
              ebind (ebind (ebind (get r kk) (\<lambda>a. get a (i - 1))) (\<lambda>b. get b jj)) (\<lambda>x.
              Inr (Var x)))
            [1..<hi])
       (\<lambda>es. Inr (xsum es))"

text \<open>
  Lines 98 to 101 and 102 to 105, for one \<open>(k, j)\<close>:
  \<^verbatim>\<open>con = 0; con += -xsum(..); con += -xsum(..); M += con >= gates[k-1] - A*(1-P[k-1][j-1])\<close>
  and
  \<^verbatim>\<open>con = 0; con += xsum(..); con += xsum(..); M += con >= 1-gates[k-1] - A*P[k-1][j-1]\<close>.
\<close>

definition gate_con_neg ::
  "nat \<Rightarrow> int \<Rightarrow> int list list \<Rightarrow> int list \<Rightarrow> var list list \<Rightarrow> var list list
     \<Rightarrow> var list list list \<Rightarrow> nat \<Rightarrow> nat \<Rightarrow> error + constr" where
  "gate_con_neg n A table gates U P r k j =
     ebind (ext_sum n table U (j - 1) (k - 1)) (\<lambda>s1.
     ebind (int_sum r (k - 1) k (j - 1)) (\<lambda>s2.
     ebind (get gates (k - 1)) (\<lambda>g.
     ebind (ebind (get P (k - 1)) (\<lambda>row. get row (j - 1))) (\<lambda>pv.
     Inr (Ge (Plus (Plus (Num 0) (Neg s1)) (Neg s2))
             (Minus (Num g) (Times A (Minus (Num 1) (Var pv)))))))))"

definition gate_con_pos ::
  "nat \<Rightarrow> int \<Rightarrow> int list list \<Rightarrow> int list \<Rightarrow> var list list \<Rightarrow> var list list
     \<Rightarrow> var list list list \<Rightarrow> nat \<Rightarrow> nat \<Rightarrow> error + constr" where
  "gate_con_pos n A table gates U P r k j =
     ebind (ext_sum n table U (j - 1) (k - 1)) (\<lambda>s1.
     ebind (int_sum r (k - 1) k (j - 1)) (\<lambda>s2.
     ebind (get gates (k - 1)) (\<lambda>g.
     ebind (ebind (get P (k - 1)) (\<lambda>row. get row (j - 1))) (\<lambda>pv.
     Inr (Ge (Plus (Plus (Num 0) s1) s2)
             (Minus (Num (1 - g)) (Times A (Var pv))))))))"

text \<open>
  Lines 107 to 116, for one \<open>(j, val)\<close> of \<^verbatim>\<open>enumerate(truth)\<close>.  The marker is
  \<^verbatim>\<open>gates[k-1]\<close> where \<open>k\<close> is whatever the earlier loops left in the local variable;
  \<open>None\<close> stands for a variable no loop has assigned.
\<close>

definition final_con ::
  "nat \<Rightarrow> nat \<Rightarrow> int list list \<Rightarrow> int list \<Rightarrow> var list list \<Rightarrow> var list list list
     \<Rightarrow> nat option \<Rightarrow> nat \<Rightarrow> int \<Rightarrow> error + constr" where
  "final_con n R table gates U r k j val =
     ebind (ext_sum n table U j (R - 1)) (\<lambda>s1.
     ebind (int_sum r (R - 1) R j) (\<lambda>s2.
     ebind (case k of None \<Rightarrow> Inl UnboundLocalError | Some k' \<Rightarrow> get gates (k' - 1)) (\<lambda>g.
     if val = 1
     then Inr (Ge (Plus (Plus (Num 0) (Neg s1)) (Neg s2)) (Num g))
     else Inr (Ge (Plus (Plus (Num 0) s1) s2) (Num (1 - g))))))"

text \<open>
  Lines 121 and 122, for one \<open>(k, j, i)\<close>:
  \<^verbatim>\<open>P[i-1][j-1] + V[k-1][i-1] - r[k-1][i-1][j-1] <= 1\<close> and
  \<^verbatim>\<open>P[i-1][j-1] + V[k-1][i-1] - 2*r[k-1][i-1][j-1] >= 0\<close>.
\<close>

definition and_operands ::
  "var list list \<Rightarrow> var list list \<Rightarrow> var list list list \<Rightarrow> nat \<Rightarrow> nat \<Rightarrow> nat
     \<Rightarrow> error + (var \<times> var \<times> var)" where
  "and_operands V P r k j i =
     ebind (ebind (get P (i - 1)) (\<lambda>row. get row (j - 1))) (\<lambda>pv.
     ebind (ebind (get V (k - 1)) (\<lambda>row. get row (i - 1))) (\<lambda>vv.
     ebind (ebind (ebind (get r (k - 1)) (\<lambda>a. get a (i - 1))) (\<lambda>b. get b (j - 1))) (\<lambda>rv.
     Inr (pv, vv, rv))))"

definition and_con_le ::
  "var list list \<Rightarrow> var list list \<Rightarrow> var list list list \<Rightarrow> nat \<Rightarrow> nat \<Rightarrow> nat
     \<Rightarrow> error + constr" where
  "and_con_le V P r k j i =
     ebind (and_operands V P r k j i) (\<lambda>(pv, vv, rv).
     Inr (Le (Minus (Plus (Var pv) (Var vv)) (Var rv)) (Num 1)))"

definition and_con_ge ::
  "var list list \<Rightarrow> var list list \<Rightarrow> var list list list \<Rightarrow> nat \<Rightarrow> nat \<Rightarrow> nat
     \<Rightarrow> error + constr" where
  "and_con_ge V P r k j i =
     ebind (and_operands V P r k j i) (\<lambda>(pv, vv, rv).
     Inr (Ge (Minus (Plus (Var pv) (Var vv)) (Times 2 (Var rv))) (Num 0)))"

text \<open>
  Lines 125 to 128, for one \<open>k\<close>:
  \<^verbatim>\<open>con = 0; con += xsum(U[el-1][k-1] ..); con += xsum(V[k-1][i-1] ..); M += con <= 1 - gates[k-1]\<close>.
\<close>

definition fanin_con ::
  "nat \<Rightarrow> int list \<Rightarrow> var list list \<Rightarrow> var list list \<Rightarrow> nat \<Rightarrow> error + constr" where
  "fanin_con n gates U V k =
     ebind (emap (\<lambda>el. ebind (ebind (get U (el - 1)) (\<lambda>row. get row (k - 1))) (\<lambda>x. Inr (Var x)))
              [1..<n + 1]) (\<lambda>us.
     ebind (emap (\<lambda>i. ebind (ebind (get V (k - 1)) (\<lambda>row. get row (i - 1))) (\<lambda>x. Inr (Var x)))
              [1..<k]) (\<lambda>vs.
     ebind (get gates (k - 1)) (\<lambda>g.
     Inr (Le (Plus (Plus (Num 0) (xsum us)) (xsum vs)) (Num (1 - g))))))"

subsection \<open>The whole function\<close>

text \<open>
  The constraints in the order the source adds them, each one a computation that may
  raise.  \<open>List.product\<close> lists the pairs as \<^verbatim>\<open>itertools.product\<close> does (the first
  component varies slowest).  The \<open>k\<close> of lines 112 and 116 is the local variable of the
  function: the loop of line 83 assigns it \<open>1, \<dots>, R\<close> and the loop of line 97 the first
  components of its pairs (the loops of lines 70, 73 and 78 assign it before line 83
  does, and only when line 83 does as well; the generator expressions of lines 92 and 93
  have their own scope).
\<close>

definition last_assigned :: "nat list \<Rightarrow> nat option" where
  "last_assigned ks = (if ks = [] then None else Some (last ks))"

definition statements :: "nat \<Rightarrow> int list \<Rightarrow> int list \<Rightarrow> (error + constr) list" where
  "statements n truth gates =
     (let R = length gates;
          A = int n + int R;
          table = make_table n;
          U = alloc_U n R;
          V = alloc_V R;
          P = alloc_P n R;
          r = alloc_r n R;
          gate_pairs = List.product [1..<R] [1..<2 ^ n + 1];
          k_left = last_assigned ([1..<R + 1] @ map fst gate_pairs)
      in concat (map (\<lambda>(k, j). [gate_con_neg n A table gates U P r k j,
                                  gate_con_pos n A table gates U P r k j]) gate_pairs)
         @ map (\<lambda>(j, val). final_con n R table gates U r k_left j val) (List.enumerate 0 truth)
         @ concat (map (\<lambda>(k, j). concat (map (\<lambda>i. [and_con_le V P r k j i,
                                                     and_con_ge V P r k j i]) [1..<k]))
                     (List.product [2..<R + 1] [1..<2 ^ n + 1]))
         @ map (fanin_con n gates U V) [1..<R + 1])"

text \<open>
  \<^verbatim>\<open>M += ...\<close> for each statement in turn, until one raises: the constraints added so
  far, and the exception if there is one.
\<close>

fun emit_all :: "(error + constr) list \<Rightarrow> constr list \<times> error option" where
  "emit_all [] = ([], None)"
| "emit_all (Inl e # rest) = ([], Some e)"
| "emit_all (Inr c # rest) = (case emit_all rest of (cs, e) \<Rightarrow> (c # cs, e))"

text \<open>
  The result is the model \<open>M\<close> as it is when the function is left, and either the
  exception that left it or the path \<^verbatim>\<open>M.write\<close> was called with.  (The model's name
  and its sense \<^verbatim>\<open>MINIMIZE\<close> are not modelled.)
\<close>

definition make_circuit_lp :: "string \<Rightarrow> string \<Rightarrow> string option \<Rightarrow> model \<times> (error + string)" where
  "make_circuit_lp truth gates filename =
     (case int_log2 (length truth) of
        Inl e \<Rightarrow> (Model, Inl e)
      | Inr n \<Rightarrow>
         (case emap (\<lambda>i. py_int [i]) truth of
            Inl e \<Rightarrow> (Model, Inl e)
          | Inr truth' \<Rightarrow>
             (let gates' = gate_markers gates;
                  R = length gates';
                  M = Model\<lparr>mvars := alloc_all n R,
                            objective := make_objective (alloc_U n R) (alloc_V R)\<rparr>;
                  (cs, err) = emit_all (statements n truth' gates');
                  M = M\<lparr>constrs := cs\<rparr>
              in case err of
                   Some e \<Rightarrow> (M, Inl e)
                 | None \<Rightarrow> (M, Inr (case filename of None \<Rightarrow> ''circuit.lp''
                                                    | Some f \<Rightarrow> f @ ''.lp'')))))"

section \<open>\<^verbatim>\<open>solve_circuit_lp\<close>\<close>

subsection \<open>Lines 215 to 221: decoding the solver's log\<close>

text \<open>The field \<^verbatim>\<open>'\t(obj:1)\n'\<close> that marks a line of the solution listing.\<close>

definition obj_mark :: string where
  "obj_mark = CHR 0x09 # ''(obj:1)'' @ [CHR 0x0A]"

text \<open>\<^verbatim>\<open>(line[0], int(line[-2]))\<close>\<close>

definition connection :: "string list \<Rightarrow> error + (string \<times> int)" where
  "connection line =
     ebind (get line 0) (\<lambda>name.
     ebind (get_from_end2 line) (\<lambda>field.
     ebind (py_int field) (\<lambda>val.
     Inr (name, val))))"

text \<open>
  The loop over the lines of the file, as the file iterator yields them (each with its
  line terminator), with the list \<^verbatim>\<open>connect\<close> as accumulator.
\<close>

fun decode_loop :: "(string \<times> int) list \<Rightarrow> string list \<Rightarrow> error + (string \<times> int) list" where
  "decode_loop connect [] = Inr connect"
| "decode_loop connect (l # f) =
     (let line = split_sp l
      in if obj_mark \<in> set line
         then ebind (connection line) (\<lambda>c. decode_loop (connect @ [c]) f)
         else decode_loop connect f)"

subsection \<open>The files and the solver\<close>

text \<open>
  The world of \<^verbatim>\<open>solve_circuit_lp\<close>: a flat file system of text files, and the sequence
  of operations the function has performed on it.  The \<^verbatim>\<open>mip\<close> package and the programs
  the shell runs are not part of the repository, so what they do to the files is a
  parameter: \<open>lp_write E path M fs\<close> is the file system \<^verbatim>\<open>M.write(path)\<close> leaves when it
  starts from \<open>fs\<close> (which file it writes, and in which format, is the writer's business),
  and \<open>shell E cmd fs\<close> the one \<^verbatim>\<open>os.system(cmd)\<close> leaves (\<^verbatim>\<open>rm\<close>, the SCIP binary).  Neither
  is taken to raise.
\<close>

datatype event =
    Write string
  | Exists string
  | System string
  | Open string

record world =
  files :: "string \<rightharpoonup> string list"
  events :: "event list"

record env =
  lp_write :: "string \<Rightarrow> model \<Rightarrow> (string \<rightharpoonup> string list) \<Rightarrow> (string \<rightharpoonup> string list)"
  shell :: "string \<Rightarrow> (string \<rightharpoonup> string list) \<Rightarrow> (string \<rightharpoonup> string list)"

definition os_system :: "env \<Rightarrow> string \<Rightarrow> world \<Rightarrow> world" where
  "os_system E cmd w = w\<lparr>files := shell E cmd (files w), events := events w @ [System cmd]\<rparr>"

definition log_event :: "event \<Rightarrow> world \<Rightarrow> world" where
  "log_event ev w = w\<lparr>events := events w @ [ev]\<rparr>"

text \<open>Lines 200 to 203.  \<^verbatim>\<open>filename[-3:]\<close> of a shorter string is the whole string.\<close>

definition norm_filename :: "string option \<Rightarrow> string" where
  "norm_filename filename =
     (let f = (case filename of None \<Rightarrow> ''circuit'' | Some f \<Rightarrow> f)
      in if drop (length f - 3) f = ''.lp'' then take (length f - 3) f else f)"

definition scip_command :: "bool \<Rightarrow> string \<Rightarrow> string" where
  "scip_command verbose filename =
     (if verbose then ''./scip -f '' @ filename @ ''.lp -l '' @ filename @ ''.log''
      else ''./scip -q -f '' @ filename @ ''.lp -l '' @ filename @ ''.log'')"

text \<open>
  Lines 205 to 213 once \<^verbatim>\<open>make_circuit_lp\<close> has reached its \<^verbatim>\<open>M.write(path)\<close>: the writer
  has run, a log left by an earlier run is removed, and SCIP is run on the model.
\<close>

definition run_solver :: "env \<Rightarrow> string \<Rightarrow> string \<Rightarrow> model \<Rightarrow> bool \<Rightarrow> world \<Rightarrow> world" where
  "run_solver E filename path M verbose w0 =
     (let w1 = log_event (Write path) (w0\<lparr>files := lp_write E path M (files w0)\<rparr>);
          w2 = log_event (Exists (filename @ ''.log'')) w1;
          w3 = (if files w2 (filename @ ''.log'') \<noteq> None
                then os_system E (''rm '' @ filename @ ''.log'') w2 else w2)
      in os_system E (scip_command verbose filename) w3)"

text \<open>
  The whole function.  An exception leaves the world as it is at that point: the files
  are deleted only after the log has been decoded.
\<close>

definition solve_circuit_lp ::
  "env \<Rightarrow> string \<Rightarrow> string \<Rightarrow> string option \<Rightarrow> bool \<Rightarrow> bool \<Rightarrow> bool \<Rightarrow> world
     \<Rightarrow> (error + (string \<times> int) list) \<times> world" where
  "solve_circuit_lp E truth gates filename verbose delete_lp delete_log w0 =
     (let filename = norm_filename filename
      in case make_circuit_lp truth gates (Some filename) of
           (M, Inl e) \<Rightarrow> (Inl e, w0)
         | (M, Inr path) \<Rightarrow>
            (let w4 = run_solver E filename path M verbose w0;
                 w5 = log_event (Open (filename @ ''.log'')) w4
             in case files w5 (filename @ ''.log'') of
                  None \<Rightarrow> (Inl FileNotFoundError, w5)
                | Some f \<Rightarrow>
                   (case decode_loop [] f of
                      Inl e \<Rightarrow> (Inl e, w5)
                    | Inr connect \<Rightarrow>
                       (let w6 = (if delete_lp
                                  then os_system E (''rm '' @ filename @ ''.lp'') w5 else w5);
                            w7 = (if delete_log
                                  then os_system E (''rm '' @ filename @ ''.log'') w6 else w6)
                        in (Inr connect, w7)))))"

section \<open>The constraints of the formulation, by name\<close>

text \<open>
  The inequalities as the formulation states them, with the 1-based indices of the
  variables' names: \<open>table_sum n j k\<close> is \<open>\<Sum>\<^sub>e table[j][e] \<sqdot> u[e][k]\<close> and \<open>r_sum k j\<close> is
  \<open>\<Sum>\<^bsub>i<k\<^esub> r[i][k][j]\<close>.  The theorems below relate them to what \<open>make_circuit_lp\<close>
  emits.
\<close>

definition table_sum :: "nat \<Rightarrow> nat \<Rightarrow> nat \<Rightarrow> lexp" where
  "table_sum n j k =
     xsum (map (\<lambda>el. Times (make_table n ! (j - 1) ! (el - 1)) (Var (U_var el k))) [1..<n + 1])"

definition r_sum :: "nat \<Rightarrow> nat \<Rightarrow> lexp" where
  "r_sum k j = xsum (map (\<lambda>i. Var (R_var i k j)) [1..<k])"

definition bigM_neg :: "nat \<Rightarrow> int \<Rightarrow> int \<Rightarrow> nat \<Rightarrow> nat \<Rightarrow> constr" where
  "bigM_neg n A g k j =
     Ge (Plus (Plus (Num 0) (Neg (table_sum n j k))) (Neg (r_sum k j)))
        (Minus (Num g) (Times A (Minus (Num 1) (Var (P_var k j)))))"

definition bigM_pos :: "nat \<Rightarrow> int \<Rightarrow> int \<Rightarrow> nat \<Rightarrow> nat \<Rightarrow> constr" where
  "bigM_pos n A g k j =
     Ge (Plus (Plus (Num 0) (table_sum n j k)) (r_sum k j))
        (Minus (Num (1 - g)) (Times A (Var (P_var k j))))"

definition final_row :: "nat \<Rightarrow> nat \<Rightarrow> int \<Rightarrow> nat \<Rightarrow> int \<Rightarrow> constr" where
  "final_row n R g j val =
     (if val = 1
      then Ge (Plus (Plus (Num 0) (Neg (table_sum n j R))) (Neg (r_sum R j))) (Num g)
      else Ge (Plus (Plus (Num 0) (table_sum n j R)) (r_sum R j)) (Num (1 - g)))"

definition and_le :: "nat \<Rightarrow> nat \<Rightarrow> nat \<Rightarrow> constr" where
  "and_le i k j = Le (Minus (Plus (Var (P_var i j)) (Var (V_var i k))) (Var (R_var i k j))) (Num 1)"

definition and_ge :: "nat \<Rightarrow> nat \<Rightarrow> nat \<Rightarrow> constr" where
  "and_ge i k j =
     Ge (Minus (Plus (Var (P_var i j)) (Var (V_var i k))) (Times 2 (Var (R_var i k j)))) (Num 0)"

definition fan_in :: "nat \<Rightarrow> int \<Rightarrow> nat \<Rightarrow> constr" where
  "fan_in n g k =
     Le (Plus (Plus (Num 0) (xsum (map (\<lambda>el. Var (U_var el k)) [1..<n + 1])))
              (xsum (map (\<lambda>i. Var (V_var i k)) [1..<k])))
        (Num (1 - g))"

text \<open>The four blocks of the constraint list, for markers \<open>gs\<close> and truth values \<open>tr\<close>.\<close>

definition gate_block :: "nat \<Rightarrow> int list \<Rightarrow> constr list" where
  "gate_block n gs =
     concat (map (\<lambda>(k, j). [bigM_neg n (int n + int (length gs)) (gs ! (k - 1)) k j,
                             bigM_pos n (int n + int (length gs)) (gs ! (k - 1)) k j])
               (List.product [1..<length gs] [1..<2 ^ n + 1]))"

text \<open>The gate whose marker lines 112 and 116 read: \<open>R - 1\<close> when there are two gates or more.\<close>

definition marker_gate :: "nat \<Rightarrow> nat" where
  "marker_gate R = (if 2 \<le> R then R - 1 else R)"

definition final_block :: "nat \<Rightarrow> int list \<Rightarrow> int list \<Rightarrow> constr list" where
  "final_block n gs tr =
     map (\<lambda>(j, val). final_row n (length gs) (gs ! (marker_gate (length gs) - 1)) (j + 1) val)
       (List.enumerate 0 tr)"

definition and_block :: "nat \<Rightarrow> nat \<Rightarrow> constr list" where
  "and_block n R =
     concat (map (\<lambda>(k, j). concat (map (\<lambda>i. [and_le i k j, and_ge i k j]) [1..<k]))
               (List.product [2..<R + 1] [1..<2 ^ n + 1]))"

definition fan_in_block :: "nat \<Rightarrow> int list \<Rightarrow> constr list" where
  "fan_in_block n gs = map (\<lambda>k. fan_in n (gs ! (k - 1)) k) [1..<length gs + 1]"

section \<open>An example circuit\<close>

text \<open>
  Two inverters in a row compute the identity of one input: input 1 feeds gate 1, gate 1
  feeds gate 2.  As an assignment of the model for \<^verbatim>\<open>truth = '01'\<close> and
  \<^verbatim>\<open>gates = 'NOT NOT'\<close>: \<open>u.1.1 = v.1.2 = 1\<close>, gate 1 outputs 1 on row 1 only
  (\<open>p.1.1 = 1\<close>), and so \<open>r.1.2.1 = 1\<close>.
\<close>

definition double_not :: "var \<Rightarrow> int" where
  "double_not x = (if x \<in> {U_var 1 1, V_var 1 2, P_var 1 1, R_var 1 2 1} then 1 else 0)"

text \<open>
  One inverter computes the negation of one input: with \<^verbatim>\<open>gates = 'NAND NOT'\<close> input 1 feeds
  gate 2 and nothing else is connected; the unconnected gate 1 outputs 1 on both rows.
\<close>

definition single_not :: "var \<Rightarrow> int" where
  "single_not x = (if x \<in> {U_var 1 2, P_var 1 1, P_var 1 2} then 1 else 0)"

section \<open>Example solver runs\<close>

text \<open>
  A shell for the examples: \<^verbatim>\<open>rm\<close> of a path removes the file, and the quiet SCIP command
  on \<^verbatim>\<open>circuit.lp\<close> writes the given lines to \<^verbatim>\<open>circuit.log\<close>.  The writer of the examples
  stores the model at the path it is given; the text it prints plays no role and is left
  empty.
\<close>

definition plain_write ::
  "string \<Rightarrow> model \<Rightarrow> (string \<rightharpoonup> string list) \<Rightarrow> (string \<rightharpoonup> string list)" where
  "plain_write path M fs = fs(path \<mapsto> [])"

definition example_shell ::
  "string list \<Rightarrow> string \<Rightarrow> (string \<rightharpoonup> string list) \<Rightarrow> (string \<rightharpoonup> string list)" where
  "example_shell log cmd fs =
     (if cmd = ''./scip -q -f circuit.lp -l circuit.log'' then fs(''circuit.log'' \<mapsto> log)
      else if take 3 cmd = ''rm '' then fs(drop 3 cmd := None)
      else fs)"

definition example_env :: "string list \<Rightarrow> env" where
  "example_env log = \<lparr>lp_write = plain_write, shell = example_shell log\<rparr>"




definition empty_world :: world where
  "empty_world = \<lparr>files = Map.empty, events = []\<rparr>"

text \<open>
  Three logs: the solution listing of the two-inverter circuit, the report of an
  infeasible model, and a listing whose value field is not a number.
\<close>

definition solved_log :: "string list" where
  "solved_log =
     [''objective value:                                    2'' @ [CHR 0x0A],
      ''u.1.1                                               1 '' @ obj_mark,
      ''v.1.2                                               1 '' @ obj_mark,
      ''p.1.1                                               1 '' @ CHR 0x09 # ''(obj:0)'' @ [CHR 0x0A]]"

definition infeasible_log :: "string list" where
  "infeasible_log =
     [''SCIP Status        : problem is solved [infeasible]'' @ [CHR 0x0A],
      ''no solution available'' @ [CHR 0x0A]]"

definition corrupt_log :: "string list" where
  "corrupt_log =
     [''u.1.1                                               1 '' @ obj_mark,
      ''v.1.2                                               one '' @ obj_mark]"

section \<open>Facts about the embedding\<close>

subsection \<open>Exceptions and subscripts\<close>

lemma ebind_Inr [simp]: "ebind (Inr x) f = f x"
  by (simp add: ebind_def)

lemma ebind_Inl [simp]: "ebind (Inl e) f = Inl e"
  by (simp add: ebind_def)

lemma get_in_range: "i < length xs \<Longrightarrow> get xs i = Inr (xs ! i)"
  by (simp add: get_def)

lemma get_out_of_range: "length xs \<le> i \<Longrightarrow> get xs i = Inl IndexError"
  by (simp add: get_def)

lemma emap_all_Inr: "(\<And>x. x \<in> set xs \<Longrightarrow> f x = Inr (g x)) \<Longrightarrow> emap f xs = Inr (map g xs)"
  by (induction xs) simp_all

subsection \<open>The table and the allocated variables\<close>

lemma length_product_01: "length (product_01 n) = 2 ^ n"
  by (induction n) (simp_all add: length_concat o_def sum_list_triv)

lemma length_row_product_01: "row \<in> set (product_01 n) \<Longrightarrow> length row = n"
  by (induction n arbitrary: row) auto

lemma length_make_table: "length (make_table n) = 2 ^ n"
  by (simp add: make_table_def fliplr_def length_product_01)

lemma length_row_make_table: "jj < 2 ^ n \<Longrightarrow> length (make_table n ! jj) = n"
  by (simp add: make_table_def fliplr_def length_product_01 length_row_product_01)

lemma get2_alloc_U:
  "e < n \<Longrightarrow> kk < R \<Longrightarrow>
   ebind (get (alloc_U n R) e) (\<lambda>row. get row kk) = Inr (U_var (e + 1) (kk + 1))"
  by (simp add: get_def alloc_U_def del: upt_Suc)

lemma get2_alloc_V:
  "kk < R \<Longrightarrow> ii < kk \<Longrightarrow>
   ebind (get (alloc_V R) kk) (\<lambda>row. get row ii) = Inr (V_var (ii + 1) (kk + 1))"
  by (simp add: get_def alloc_V_def del: upt_Suc)

lemma get2_alloc_P:
  "kk + 1 < R \<Longrightarrow> jj < 2 ^ n \<Longrightarrow>
   ebind (get (alloc_P n R) kk) (\<lambda>row. get row jj) = Inr (P_var (kk + 1) (jj + 1))"
  by (simp add: get_def alloc_P_def del: upt_Suc)

lemma get3_alloc_r:
  "kk < R \<Longrightarrow> ii < kk \<Longrightarrow> jj < 2 ^ n \<Longrightarrow>
   ebind (ebind (get (alloc_r n R) kk) (\<lambda>a. get a ii)) (\<lambda>b. get b jj)
     = Inr (R_var (ii + 1) (kk + 1) (jj + 1))"
  by (simp add: get_def alloc_r_def del: upt_Suc)

lemma get2_make_table:
  "jj < 2 ^ n \<Longrightarrow> e < n \<Longrightarrow>
   ebind (get (make_table n) jj) (\<lambda>row. get row e) = Inr (make_table n ! jj ! e)"
  by (simp add: get_def length_make_table length_row_make_table)

subsection \<open>The constraints of a well-formed call, one by one\<close>

lemma ext_sum_ok:
  assumes "jj < 2 ^ n" "1 \<le> k" "k \<le> R"
  shows "ext_sum n (make_table n) (alloc_U n R) jj (k - 1) =
    Inr (xsum (map (\<lambda>el. Times (make_table n ! jj ! (el - 1)) (Var (U_var el k))) [1..<n + 1]))"
proof -
  have "emap (\<lambda>el.
              ebind (ebind (get (make_table n) jj) (\<lambda>row. get row (el - 1))) (\<lambda>t.
              ebind (ebind (get (alloc_U n R) (el - 1)) (\<lambda>row. get row (k - 1))) (\<lambda>x.
              Inr (Times t (Var x))))) [1..<n + 1]
      = Inr (map (\<lambda>el. Times (make_table n ! jj ! (el - 1)) (Var (U_var el k))) [1..<n + 1])"
  proof (rule emap_all_Inr)
    fix el assume "el \<in> set [1..<n + 1]"
    then have el: "1 \<le> el" "el - 1 < n" by auto
    with assms show "ebind (ebind (get (make_table n) jj) (\<lambda>row. get row (el - 1))) (\<lambda>t.
              ebind (ebind (get (alloc_U n R) (el - 1)) (\<lambda>row. get row (k - 1))) (\<lambda>x.
              Inr (Times t (Var x)))) = Inr (Times (make_table n ! jj ! (el - 1)) (Var (U_var el k)))"
      by (simp add: get2_make_table get2_alloc_U)
  qed
  then show ?thesis by (simp add: ext_sum_def del: upt_Suc)
qed

lemma int_sum_ok:
  assumes "jj < 2 ^ n" "1 \<le> k" "k \<le> R" "hi \<le> k"
  shows "int_sum (alloc_r n R) (k - 1) hi jj =
    Inr (xsum (map (\<lambda>i. Var (R_var i k (jj + 1))) [1..<hi]))"
proof -
  have "emap (\<lambda>i.
              ebind (ebind (ebind (get (alloc_r n R) (k - 1)) (\<lambda>a. get a (i - 1))) (\<lambda>b. get b jj)) (\<lambda>x.
              Inr (Var x))) [1..<hi]
      = Inr (map (\<lambda>i. Var (R_var i k (jj + 1))) [1..<hi])"
  proof (rule emap_all_Inr)
    fix i assume "i \<in> set [1..<hi]"
    then have i: "1 \<le> i" "i < hi" by auto
    with assms have "i - 1 < k - 1" "k - 1 < R" by simp_all
    with assms i show "ebind (ebind (ebind (get (alloc_r n R) (k - 1)) (\<lambda>a. get a (i - 1))) (\<lambda>b. get b jj)) (\<lambda>x.
              Inr (Var x)) = Inr (Var (R_var i k (jj + 1)))"
      by (simp add: get3_alloc_r)
  qed
  then show ?thesis by (simp add: int_sum_def)
qed

lemma get_P_ok:
  assumes "1 \<le> k" "k < R" "1 \<le> j" "j \<le> 2 ^ n"
  shows "ebind (get (alloc_P n R) (k - 1)) (\<lambda>row. get row (j - 1)) = Inr (P_var k j)"
  using assms get2_alloc_P [of "k - 1" R "j - 1" n] by simp

lemma gate_con_neg_ok:
  assumes "1 \<le> k" "k < length gs" "1 \<le> j" "j \<le> 2 ^ n"
  shows "gate_con_neg n A (make_table n) gs (alloc_U n (length gs)) (alloc_P n (length gs))
           (alloc_r n (length gs)) k j = Inr (bigM_neg n A (gs ! (k - 1)) k j)"
proof -
  from assms have jj: "j - 1 < 2 ^ n" and kR: "k \<le> length gs" and "j - 1 + 1 = j" by simp_all
  then have s1: "ext_sum n (make_table n) (alloc_U n (length gs)) (j - 1) (k - 1)
      = Inr (table_sum n j k)"
    and s2: "int_sum (alloc_r n (length gs)) (k - 1) k (j - 1) = Inr (r_sum k j)"
    using ext_sum_ok [OF jj assms(1) kR] int_sum_ok [OF jj assms(1) kR order_refl]
    by (simp_all add: table_sum_def r_sum_def)
  from assms have g: "get gs (k - 1) = Inr (gs ! (k - 1))" by (simp add: get_in_range)
  show ?thesis
    unfolding gate_con_neg_def s1 s2 g get_P_ok [OF assms] bigM_neg_def by simp
qed

lemma gate_con_pos_ok:
  assumes "1 \<le> k" "k < length gs" "1 \<le> j" "j \<le> 2 ^ n"
  shows "gate_con_pos n A (make_table n) gs (alloc_U n (length gs)) (alloc_P n (length gs))
           (alloc_r n (length gs)) k j = Inr (bigM_pos n A (gs ! (k - 1)) k j)"
proof -
  from assms have jj: "j - 1 < 2 ^ n" and kR: "k \<le> length gs" and "j - 1 + 1 = j" by simp_all
  then have s1: "ext_sum n (make_table n) (alloc_U n (length gs)) (j - 1) (k - 1)
      = Inr (table_sum n j k)"
    and s2: "int_sum (alloc_r n (length gs)) (k - 1) k (j - 1) = Inr (r_sum k j)"
    using ext_sum_ok [OF jj assms(1) kR] int_sum_ok [OF jj assms(1) kR order_refl]
    by (simp_all add: table_sum_def r_sum_def)
  from assms have g: "get gs (k - 1) = Inr (gs ! (k - 1))" by (simp add: get_in_range)
  show ?thesis
    unfolding gate_con_pos_def s1 s2 g get_P_ok [OF assms] bigM_pos_def by simp
qed

lemma final_con_ok:
  assumes "gs \<noteq> []" "j < 2 ^ n" "1 \<le> k'" "k' \<le> length gs"
  shows "final_con n (length gs) (make_table n) gs (alloc_U n (length gs))
           (alloc_r n (length gs)) (Some k') j val
         = Inr (final_row n (length gs) (gs ! (k' - 1)) (j + 1) val)"
proof -
  from assms have R: "1 \<le> length gs" by (simp add: Suc_le_eq)
  have s1: "ext_sum n (make_table n) (alloc_U n (length gs)) j (length gs - 1)
      = Inr (table_sum n (j + 1) (length gs))"
    and s2: "int_sum (alloc_r n (length gs)) (length gs - 1) (length gs) j
      = Inr (r_sum (length gs) (j + 1))"
    using ext_sum_ok [OF assms(2) R order_refl] int_sum_ok [OF assms(2) R order_refl order_refl]
    by (simp_all add: table_sum_def r_sum_def)
  from assms have g: "get gs (k' - 1) = Inr (gs ! (k' - 1))" by (simp add: get_in_range)
  show ?thesis
    unfolding final_con_def s1 s2 final_row_def using assms by (simp add: get_in_range)
qed

lemma final_con_out_of_range:
  assumes "1 \<le> n" "2 ^ n \<le> j"
  shows "final_con n R (make_table n) gs U r k j val = Inl IndexError"
proof -
  from assms obtain m where "[1..<n + 1] = 1 # m" by (cases n) (auto simp: upt_rec)
  with assms show ?thesis
    by (simp add: final_con_def ext_sum_def get_out_of_range length_make_table del: upt_Suc)
qed

lemma and_operands_ok:
  assumes "2 \<le> k" "k \<le> R" "1 \<le> j" "j \<le> 2 ^ n" "1 \<le> i" "i < k"
  shows "and_operands (alloc_V R) (alloc_P n R) (alloc_r n R) k j i
         = Inr (P_var i j, V_var i k, R_var i k j)"
proof -
  from assms have "i < R" by simp
  from get_P_ok [OF assms(5) this assms(3,4)]
  have p: "ebind (get (alloc_P n R) (i - 1)) (\<lambda>row. get row (j - 1)) = Inr (P_var i j)" .
  have v: "ebind (get (alloc_V R) (k - 1)) (\<lambda>row. get row (i - 1)) = Inr (V_var i k)"
    using assms get2_alloc_V [of "k - 1" R "i - 1"] by simp
  have r: "ebind (ebind (get (alloc_r n R) (k - 1)) (\<lambda>a. get a (i - 1))) (\<lambda>b. get b (j - 1))
      = Inr (R_var i k j)"
    using assms get3_alloc_r [of "k - 1" R "i - 1" "j - 1" n] by simp
  show ?thesis unfolding and_operands_def p v r by simp
qed

lemma fanin_con_ok:
  assumes "1 \<le> k" "k \<le> length gs"
  shows "fanin_con n gs (alloc_U n (length gs)) (alloc_V (length gs)) k
         = Inr (fan_in n (gs ! (k - 1)) k)"
proof -
  have 1: "emap (\<lambda>el. ebind (ebind (get (alloc_U n (length gs)) (el - 1)) (\<lambda>row. get row (k - 1)))
                  (\<lambda>x. Inr (Var x))) [1..<n + 1] = Inr (map (\<lambda>el. Var (U_var el k)) [1..<n + 1])"
  proof (rule emap_all_Inr)
    fix el assume "el \<in> set [1..<n + 1]"
    then have "el - 1 < n" "el - 1 + 1 = el" by auto
    with assms get2_alloc_U [of "el - 1" n "k - 1" "length gs"]
    show "ebind (ebind (get (alloc_U n (length gs)) (el - 1)) (\<lambda>row. get row (k - 1)))
            (\<lambda>x. Inr (Var x)) = Inr (Var (U_var el k))" by simp
  qed
  have 2: "emap (\<lambda>i. ebind (ebind (get (alloc_V (length gs)) (k - 1)) (\<lambda>row. get row (i - 1)))
                  (\<lambda>x. Inr (Var x))) [1..<k] = Inr (map (\<lambda>i. Var (V_var i k)) [1..<k])"
  proof (rule emap_all_Inr)
    fix i assume "i \<in> set [1..<k]"
    then have "i - 1 < k - 1" "i - 1 + 1 = i" by auto
    with assms get2_alloc_V [of "k - 1" "length gs" "i - 1"]
    show "ebind (ebind (get (alloc_V (length gs)) (k - 1)) (\<lambda>row. get row (i - 1)))
            (\<lambda>x. Inr (Var x)) = Inr (Var (V_var i k))" by simp
  qed
  from assms have g: "get gs (k - 1) = Inr (gs ! (k - 1))" by (simp add: get_in_range)
  show ?thesis
    unfolding fanin_con_def fan_in_def 1 2 g by simp
qed


subsection \<open>The whole constraint list\<close>

declare ilog2.simps [simp del]

lemma ilog2_power: "ilog2 (2 ^ n) = n"
proof (induction n)
  case 0
  show ?case by (simp add: ilog2.simps)
next
  case (Suc n)
  have "\<not> (2::nat) ^ Suc n < 2" by simp
  then have "ilog2 (2 ^ Suc n) = Suc (ilog2 (2 ^ Suc n div 2))"
    by (subst ilog2.simps) simp
  with Suc show ?case by simp
qed

lemma ilog2_bounds: "0 < l \<Longrightarrow> 2 ^ ilog2 l \<le> l \<and> l < 2 ^ (ilog2 l + 1)"
proof (induction l rule: ilog2.induct)
  case (1 l)
  show ?case
  proof (cases "l < 2")
    case True
    with "1.prems" show ?thesis by (simp add: ilog2.simps)
  next
    case False
    then have "0 < l div 2" by simp
    with "1.IH" False have "2 ^ ilog2 (l div 2) \<le> l div 2 \<and> l div 2 < 2 ^ (ilog2 (l div 2) + 1)"
      by simp
    moreover from False have "ilog2 l = Suc (ilog2 (l div 2))" by (subst ilog2.simps) simp
    ultimately show ?thesis by auto
  qed
qed

lemma product_empty_iff: "List.product xs ys = [] \<longleftrightarrow> xs = [] \<or> ys = []"
  by (induction xs) auto

lemma last_fst_product:
  "xs \<noteq> [] \<Longrightarrow> ys \<noteq> [] \<Longrightarrow> last (map fst (List.product xs ys)) = last xs"
proof (induction xs)
  case Nil
  then show ?case by simp
next
  case (Cons x xs)
  show ?case
  proof (cases "xs = []")
    case True
    with Cons.prems show ?thesis by (simp add: last_map)
  next
    case False
    with Cons show ?thesis by (simp add: product_empty_iff)
  qed
qed

lemma k_left:
  assumes "1 \<le> R"
  shows "last_assigned ([1..<R + 1] @ map fst (List.product [1..<R] [1..<2 ^ n + 1]))
         = Some (marker_gate R)"
proof (cases "2 \<le> R")
  case True
  then have "[1..<R] \<noteq> []" "[1..<2 ^ n + 1] \<noteq> ([]::nat list)" by simp_all
  then have "last (map fst (List.product [1..<R] [1..<2 ^ n + 1])) = last [1..<R]"
    and "List.product [1..<R] [1..<2 ^ n + 1] \<noteq> []"
    by (simp_all add: last_fst_product product_empty_iff del: upt_Suc)
  moreover from True have "last [1..<R] = R - 1" by (cases R) simp_all
  ultimately show ?thesis using True
    by (simp add: last_assigned_def marker_gate_def del: upt_Suc)
next
  case False
  with assms have "R = 1" by simp
  then show ?thesis by (simp add: last_assigned_def marker_gate_def)
qed

lemma concat_map_Inr:
  "(\<And>x. x \<in> set xs \<Longrightarrow> f x = map Inr (g x)) \<Longrightarrow> concat (map f xs) = map Inr (concat (map g xs))"
  by (induction xs) simp_all

lemma gate_stmts_ok:
  "concat (map (\<lambda>(k, j). [gate_con_neg n (int n + int (length gs)) (make_table n) gs
                             (alloc_U n (length gs)) (alloc_P n (length gs)) (alloc_r n (length gs)) k j,
                           gate_con_pos n (int n + int (length gs)) (make_table n) gs
                             (alloc_U n (length gs)) (alloc_P n (length gs)) (alloc_r n (length gs)) k j])
     (List.product [1..<length gs] [1..<2 ^ n + 1]))
   = map Inr (gate_block n gs)"
  unfolding gate_block_def
  by (rule concat_map_Inr) (auto simp: gate_con_neg_ok gate_con_pos_ok simp del: upt_Suc)

lemma and_stmts_ok:
  "concat (map (\<lambda>(k, j). concat (map (\<lambda>i. [and_con_le (alloc_V R) (alloc_P n R) (alloc_r n R) k j i,
                                             and_con_ge (alloc_V R) (alloc_P n R) (alloc_r n R) k j i])
                                    [1..<k]))
     (List.product [2..<R + 1] [1..<2 ^ n + 1]))
   = map Inr (and_block n R)"
  unfolding and_block_def
proof (rule concat_map_Inr)
  fix x assume x: "x \<in> set (List.product [2..<R + 1] [1..<2 ^ n + 1])"
  obtain k j where kj: "x = (k, j)" by (cases x)
  with x have *: "2 \<le> k" "k \<le> R" "1 \<le> j" "j \<le> 2 ^ n" by auto
  have "concat (map (\<lambda>i. [and_con_le (alloc_V R) (alloc_P n R) (alloc_r n R) k j i,
                          and_con_ge (alloc_V R) (alloc_P n R) (alloc_r n R) k j i]) [1..<k])
      = map Inr (concat (map (\<lambda>i. [and_le i k j, and_ge i k j]) [1..<k]))"
  proof (rule concat_map_Inr)
    fix i assume "i \<in> set [1..<k]"
    then have "1 \<le> i" "i < k" by auto
    from and_operands_ok [OF * this]
    show "[and_con_le (alloc_V R) (alloc_P n R) (alloc_r n R) k j i,
           and_con_ge (alloc_V R) (alloc_P n R) (alloc_r n R) k j i]
          = map Inr [and_le i k j, and_ge i k j]"
      by (simp add: and_con_le_def and_con_ge_def and_le_def and_ge_def)
  qed
  with kj show "(case x of (k, j) \<Rightarrow>
          concat (map (\<lambda>i. [and_con_le (alloc_V R) (alloc_P n R) (alloc_r n R) k j i,
                            and_con_ge (alloc_V R) (alloc_P n R) (alloc_r n R) k j i]) [1..<k]))
        = map Inr (case x of (k, j) \<Rightarrow> concat (map (\<lambda>i. [and_le i k j, and_ge i k j]) [1..<k]))"
    by simp
qed

lemma fanin_stmts_ok:
  "map (fanin_con n gs (alloc_U n (length gs)) (alloc_V (length gs))) [1..<length gs + 1]
   = map Inr (fan_in_block n gs)"
  unfolding fan_in_block_def by (auto simp: fanin_con_ok simp del: upt_Suc)

lemma final_stmts_ok:
  assumes "gs \<noteq> []" "length tr \<le> 2 ^ n"
  shows "map (\<lambda>(j, val). final_con n (length gs) (make_table n) gs (alloc_U n (length gs))
                 (alloc_r n (length gs)) (Some (marker_gate (length gs))) j val)
           (List.enumerate 0 tr)
         = map Inr (final_block n gs tr)"
proof -
  from assms have m: "1 \<le> marker_gate (length gs)" "marker_gate (length gs) \<le> length gs"
    by (auto simp: marker_gate_def Suc_le_eq)
  show ?thesis
    unfolding final_block_def using assms(2)
    by (auto simp: in_set_enumerate_eq final_con_ok [OF assms(1) _ m])
qed

lemma emit_all_Inr: "emit_all (map Inr cs) = (cs, None)"
  by (induction cs) simp_all

lemma emit_all_Inl: "emit_all (map Inr cs @ Inl e # rest) = (cs, Some e)"
  by (induction cs) simp_all

lemma statements_ok:
  assumes "gs \<noteq> []" "length tr = 2 ^ n"
  shows "statements n tr gs
    = map Inr (gate_block n gs @ final_block n gs tr @ and_block n (length gs) @ fan_in_block n gs)"
proof -
  from assms have R: "1 \<le> length gs" by (simp add: Suc_le_eq)
  from assms have tr: "length tr \<le> 2 ^ n" by simp
  show ?thesis
    unfolding statements_def Let_def k_left [OF R] gate_stmts_ok and_stmts_ok fanin_stmts_ok
      final_stmts_ok [OF assms(1) tr]
    by simp
qed

lemma statements_too_long:
  assumes "gs \<noteq> []" "1 \<le> n" "2 ^ n < length tr"
  shows "emit_all (statements n tr gs)
    = (gate_block n gs @ final_block n gs (take (2 ^ n) tr), Some IndexError)"
proof -
  from assms have R: "1 \<le> length gs" by (simp add: Suc_le_eq)
  let ?F = "\<lambda>(j, val). final_con n (length gs) (make_table n) gs (alloc_U n (length gs))
                 (alloc_r n (length gs)) (Some (marker_gate (length gs))) j val"
  from assms obtain x rest where dr: "drop (2 ^ n) tr = x # rest"
    by (cases "drop (2 ^ n) tr") auto
  have len: "length (take (2 ^ n) tr) = 2 ^ n" using assms by simp
  have "List.enumerate 0 tr = List.enumerate 0 (take (2 ^ n) tr @ drop (2 ^ n) tr)" by simp
  also have "\<dots> = List.enumerate 0 (take (2 ^ n) tr) @ (2 ^ n, x) # List.enumerate (2 ^ n + 1) rest"
    unfolding enumerate_append_eq len dr by simp
  finally have "map ?F (List.enumerate 0 tr)
      = map ?F (List.enumerate 0 (take (2 ^ n) tr)) @ ?F (2 ^ n, x) # map ?F (List.enumerate (2 ^ n + 1) rest)"
    by simp
  moreover have "map ?F (List.enumerate 0 (take (2 ^ n) tr)) = map Inr (final_block n gs (take (2 ^ n) tr))"
    by (rule final_stmts_ok) (use assms len in simp_all)
  moreover have "?F (2 ^ n, x) = Inl IndexError"
    using final_con_out_of_range [OF assms(2), of "2 ^ n"] by simp
  ultimately obtain rest' where
    "map ?F (List.enumerate 0 tr) = map Inr (final_block n gs (take (2 ^ n) tr)) @ Inl IndexError # rest'"
    by simp
  then obtain rest'' where "statements n tr gs
      = map Inr (gate_block n gs @ final_block n gs (take (2 ^ n) tr)) @ Inl IndexError # rest''"
    unfolding statements_def Let_def k_left [OF R] gate_stmts_ok by simp
  then show ?thesis by (simp only: emit_all_Inl)
qed

subsection \<open>The calls that return and the calls that fail\<close>

lemma py_int_digit: "is_digit c \<Longrightarrow> py_int [c] = Inr (digit_val c)"
  by (auto simp: py_int_def strip_def is_space_def is_digit_def unsigned_int_def max_str_digits_def)

lemma py_int_non_digit: "\<not> is_digit c \<Longrightarrow> py_int [c] = Inl ValueError"
  by (auto simp: py_int_def strip_def unsigned_int_def split: list.splits)

lemma parse_truth_ok:
  "list_all is_digit truth \<Longrightarrow> emap (\<lambda>i. py_int [i]) truth = Inr (map digit_val truth)"
  by (rule emap_all_Inr) (simp add: list_all_iff py_int_digit)

lemma split_sp_nonempty: "split_sp s \<noteq> []"
  by (induction s) (auto split: list.splits)

lemma gate_markers_nonempty: "gate_markers gates \<noteq> []"
  by (simp add: gate_markers_def split_sp_nonempty)

lemma make_circuit_lp_ok:
  assumes "length truth = 2 ^ n" "list_all is_digit truth"
  shows "make_circuit_lp truth gates filename =
    (\<lparr>mvars = alloc_all n (length (gate_markers gates)),
      objective = make_objective (alloc_U n (length (gate_markers gates)))
                    (alloc_V (length (gate_markers gates))),
      constrs = gate_block n (gate_markers gates)
                @ final_block n (gate_markers gates) (map digit_val truth)
                @ and_block n (length (gate_markers gates))
                @ fan_in_block n (gate_markers gates)\<rparr>,
     Inr (case filename of None \<Rightarrow> ''circuit.lp'' | Some f \<Rightarrow> f @ ''.lp''))"
proof -
  have n: "int_log2 (length truth) = Inr n"
    using assms(1) by (simp add: int_log2_def ilog2_power)
  have st: "statements n (map digit_val truth) (gate_markers gates)
      = map Inr (gate_block n (gate_markers gates)
                @ final_block n (gate_markers gates) (map digit_val truth)
                @ and_block n (length (gate_markers gates))
                @ fan_in_block n (gate_markers gates))"
    by (rule statements_ok) (simp_all add: gate_markers_nonempty assms)
  have em: "emit_all (statements n (map digit_val truth) (gate_markers gates))
      = (gate_block n (gate_markers gates)
                @ final_block n (gate_markers gates) (map digit_val truth)
                @ and_block n (length (gate_markers gates))
                @ fan_in_block n (gate_markers gates), None)"
    unfolding st by (rule emit_all_Inr)
  show ?thesis
    by (simp add: make_circuit_lp_def n parse_truth_ok [OF assms(2)] em Model_def Let_def)
qed

lemma make_circuit_lp_too_long:
  assumes "0 < length truth" "length truth \<noteq> 2 ^ ilog2 (length truth)" "list_all is_digit truth"
  shows "make_circuit_lp truth gates filename =
    (\<lparr>mvars = alloc_all (ilog2 (length truth)) (length (gate_markers gates)),
      objective = make_objective (alloc_U (ilog2 (length truth)) (length (gate_markers gates)))
                    (alloc_V (length (gate_markers gates))),
      constrs = gate_block (ilog2 (length truth)) (gate_markers gates)
                @ final_block (ilog2 (length truth)) (gate_markers gates)
                    (take (2 ^ ilog2 (length truth)) (map digit_val truth))\<rparr>,
     Inl IndexError)"
proof -
  let ?n = "ilog2 (length truth)"
  have n: "int_log2 (length truth) = Inr ?n"
    using assms(1) by (simp add: int_log2_def)
  from ilog2_bounds [OF assms(1)] assms(2) have lt: "2 ^ ?n < length truth" by simp
  have "?n \<noteq> 0"
  proof
    assume "?n = 0"
    with ilog2_bounds [OF assms(1)] assms(2) show False by simp
  qed
  then have n1: "1 \<le> ?n" by simp
  have st: "emit_all (statements ?n (map digit_val truth) (gate_markers gates))
      = (gate_block ?n (gate_markers gates)
           @ final_block ?n (gate_markers gates) (take (2 ^ ?n) (map digit_val truth)),
         Some IndexError)"
    by (rule statements_too_long [OF gate_markers_nonempty n1]) (simp add: lt)
  show ?thesis
    by (simp add: make_circuit_lp_def n parse_truth_ok [OF assms(3)] st Model_def Let_def)
qed

subsection \<open>Reading the constraints\<close>

lemma double_not_feasible:
  "feasible double_not (fst (make_circuit_lp ''01'' ''NOT NOT'' None))"
proof -
  have "binary double_not" by (simp add: binary_def double_not_def)
  moreover have "list_all (holds double_not) (constrs (fst (make_circuit_lp ''01'' ''NOT NOT'' None)))"
    by code_simp
  ultimately show ?thesis by (simp add: feasible_def)
qed

lemma sum_list_eval_vars:
  "sum_list (map (eval a) (map (\<lambda>i. Var (f i)) [m..<n])) = (\<Sum>i = m..<n. a (f i))"
  by (simp add: o_def interv_sum_list_conv_sum_set_nat del: upt_Suc)

lemma sum_upto_Suc: "(\<Sum>i = 1..<(n::nat) + 1. f i) = (\<Sum>i = 1..n. (f i :: int))"
proof -
  have "{1..<n + 1} = {1..n}" by auto
  then show ?thesis by simp
qed

lemma eval_fan_in:
  "holds a (fan_in n g k) \<longleftrightarrow> (\<Sum>el = 1..n. a (U_var el k)) + (\<Sum>i = 1..<k. a (V_var i k)) \<le> 1 - g"
  unfolding fan_in_def holds.simps eval.simps sum_list_eval_vars sum_upto_Suc by simp

subsection \<open>Counting the constraints\<close>

lemma count_concat_one:
  assumes "distinct xs" "x \<in> set xs" "count_list (f x) c = 1"
    and "\<And>y. y \<in> set xs \<Longrightarrow> y \<noteq> x \<Longrightarrow> c \<notin> set (f y)"
  shows "count_list (concat (map f xs)) c = 1"
  using assms
proof (induction xs)
  case Nil
  then show ?case by simp
next
  case (Cons y ys)
  show ?case
  proof (cases "y = x")
    case True
    with Cons.prems have "x \<notin> set ys" by simp
    with Cons.prems(4) have "\<And>z. z \<in> set ys \<Longrightarrow> c \<notin> set (f z)" by auto
    then have "c \<notin> set (concat (map f ys))" by auto
    with True Cons.prems(3) show ?thesis by simp
  next
    case False
    with Cons.prems have "x \<in> set ys" "distinct ys" "c \<notin> set (f y)" by auto
    with Cons.IH Cons.prems show ?thesis by simp
  qed
qed

lemma in_gate_block:
  "c \<in> set (gate_block n gs) \<Longrightarrow> \<exists>A g k j. c = bigM_neg n A g k j \<or> c = bigM_pos n A g k j"
  by (auto simp: gate_block_def simp del: upt_Suc)

lemma in_final_block:
  "c \<in> set (final_block n gs tr) \<Longrightarrow> \<exists>R g j val. c = final_row n R g j val"
  by (auto simp: final_block_def simp del: upt_Suc)

lemma in_and_block:
  "c \<in> set (and_block n R) \<Longrightarrow> \<exists>i k j. c = and_le i k j \<or> c = and_ge i k j"
  by (auto simp: and_block_def simp del: upt_Suc)

lemma in_fan_in_block:
  "c \<in> set (fan_in_block n gs) \<Longrightarrow> \<exists>g k. c = fan_in n g k"
  by (auto simp: fan_in_block_def simp del: upt_Suc)

lemma and_le_elsewhere:
  "and_le i k j \<notin> set (gate_block n gs)" "and_le i k j \<notin> set (final_block n gs tr)"
  "and_le i k j \<notin> set (fan_in_block n gs)"
  by (auto dest!: in_gate_block in_final_block in_fan_in_block
      simp: and_le_def bigM_neg_def bigM_pos_def final_row_def fan_in_def split: if_splits)

lemma and_ge_elsewhere:
  "and_ge i k j \<notin> set (gate_block n gs)" "and_ge i k j \<notin> set (final_block n gs tr)"
  "and_ge i k j \<notin> set (fan_in_block n gs)"
  by (auto dest!: in_gate_block in_final_block in_fan_in_block
      simp: and_ge_def bigM_neg_def bigM_pos_def final_row_def fan_in_def split: if_splits)

lemma count_and_block:
  assumes "2 \<le> k" "k \<le> R" "1 \<le> j" "j \<le> 2 ^ n" "1 \<le> i" "i < k"
  shows "count_list (and_block n R) (and_le i k j) = 1"
    and "count_list (and_block n R) (and_ge i k j) = 1"
proof -
  let ?f = "\<lambda>(k, j). concat (map (\<lambda>i. [and_le i k j, and_ge i k j]) [1..<k])"
  let ?xs = "List.product [2..<R + 1] [1..<2 ^ n + 1]"
  have d: "distinct ?xs" by (simp add: distinct_product del: upt_Suc)
  from assms have m: "(k, j) \<in> set ?xs" by auto
  from assms have i: "distinct [1..<k]" "i \<in> set [1..<k]" by auto
  have inner_le: "count_list (?f (k, j)) (and_le i k j) = 1"
    unfolding prod.case
    by (rule count_concat_one [OF i]) (auto simp: and_le_def and_ge_def)
  have inner_ge: "count_list (?f (k, j)) (and_ge i k j) = 1"
    unfolding prod.case
    by (rule count_concat_one [OF i]) (auto simp: and_le_def and_ge_def)
  have other: "c \<notin> set (?f y)" if "y \<in> set ?xs" "y \<noteq> (k, j)" "c = and_le i k j \<or> c = and_ge i k j"
    for y c
    using that by (cases y) (auto simp: and_le_def and_ge_def)
  show "count_list (and_block n R) (and_le i k j) = 1"
    unfolding and_block_def
    by (rule count_concat_one [where f = ?f and x = "(k, j)", OF d m inner_le]) (rule other, simp_all)
  show "count_list (and_block n R) (and_ge i k j) = 1"
    unfolding and_block_def
    by (rule count_concat_one [where f = ?f and x = "(k, j)", OF d m inner_ge]) (rule other, simp_all)
qed

lemma and_pair_iff:
  assumes "binary a"
  shows "holds a (and_le i k j) \<and> holds a (and_ge i k j) \<longleftrightarrow>
    a (R_var i k j) = (if a (P_var i j) = 1 \<and> a (V_var i k) = 1 then 1 else 0)"
proof -
  from assms have "a (R_var i k j) = 0 \<or> a (R_var i k j) = 1"
    "a (P_var i j) = 0 \<or> a (P_var i j) = 1" "a (V_var i k) = 0 \<or> a (V_var i k) = 1"
    by (simp_all add: binary_def)
  then show ?thesis by (auto simp: and_le_def and_ge_def)
qed

subsection \<open>The big-M pair\<close>

lemma product_01_bit: "row \<in> set (product_01 n) \<Longrightarrow> x \<in> set row \<Longrightarrow> x = 0 \<or> x = 1"
proof (induction n arbitrary: row)
  case 0
  then show ?case by simp
next
  case (Suc n)
  from Suc.prems(1) obtain r y where "r \<in> set (product_01 n)" "row = r @ [y]" "y = 0 \<or> y = 1"
    by auto
  with Suc.IH [of r] Suc.prems(2) show ?case by auto
qed

lemma product_01_bits: "row \<in> set (product_01 n) \<Longrightarrow> set row \<subseteq> {0, 1}"
  using product_01_bit by blast

lemma binary_range: "binary a \<Longrightarrow> 0 \<le> a x \<and> a x \<le> 1"
proof -
  assume "binary a"
  then have "a x = 0 \<or> a x = 1" by (simp add: binary_def)
  then show ?thesis by auto
qed

lemma make_table_bit:
  assumes "jj < 2 ^ n" "e < n"
  shows "make_table n ! jj ! e = 0 \<or> make_table n ! jj ! e = 1"
proof -
  let ?row = "product_01 n ! jj"
  from assms(1) have mem: "?row \<in> set (product_01 n)" by (simp add: length_product_01)
  then have len: "length ?row = n" by (rule length_row_product_01)
  with assms(2) have "rev ?row ! e = ?row ! (n - Suc e)" by (simp add: rev_nth)
  moreover from len assms(2) have "?row ! (n - Suc e) \<in> set ?row" by simp
  ultimately have "rev ?row ! e \<in> set ?row" by simp
  with mem have "rev ?row ! e = 0 \<or> rev ?row ! e = 1" by (rule product_01_bit)
  with assms(1) show ?thesis by (simp add: make_table_def fliplr_def length_product_01)
qed

lemma eval_table_sum:
  "eval a (table_sum n j k) = (\<Sum>el = 1..n. make_table n ! (j - 1) ! (el - 1) * a (U_var el k))"
proof -
  have "eval a (table_sum n j k)
      = sum_list (map (\<lambda>el. make_table n ! (j - 1) ! (el - 1) * a (U_var el k)) [1..<n + 1])"
    by (simp add: table_sum_def o_def del: upt_Suc)
  also have "\<dots> = (\<Sum>el = 1..<n + 1. make_table n ! (j - 1) ! (el - 1) * a (U_var el k))"
    by (simp add: interv_sum_list_conv_sum_set_nat del: upt_Suc)
  finally show ?thesis by (simp only: sum_upto_Suc)
qed

lemma eval_r_sum: "eval a (r_sum k j) = (\<Sum>i = 1..<k. a (R_var i k j))"
  unfolding r_sum_def eval.simps sum_list_eval_vars ..

lemma table_sum_bounds:
  assumes "binary a" "1 \<le> j" "j \<le> 2 ^ n"
  shows "0 \<le> eval a (table_sum n j k)" "eval a (table_sum n j k) \<le> int n"
proof -
  have t: "0 \<le> make_table n ! (j - 1) ! (el - 1) * a (U_var el k)
      \<and> make_table n ! (j - 1) ! (el - 1) * a (U_var el k) \<le> 1" if "el \<in> {1..n}" for el
  proof -
    from that assms have "j - 1 < 2 ^ n" "el - 1 < n" by auto
    from make_table_bit [OF this] binary_range [OF assms(1), of "U_var el k"] show ?thesis
      by auto
  qed
  show "0 \<le> eval a (table_sum n j k)"
    unfolding eval_table_sum using t by (intro sum_nonneg) blast
  have "(\<Sum>el = 1..n. make_table n ! (j - 1) ! (el - 1) * a (U_var el k)) \<le> of_nat (card {1..n}) * 1"
    using t by (intro sum_bounded_above) blast
  then show "eval a (table_sum n j k) \<le> int n"
    unfolding eval_table_sum by simp
qed

lemma r_sum_bounds:
  assumes "binary a"
  shows "0 \<le> eval a (r_sum k j)" "eval a (r_sum k j) \<le> int k - 1 \<or> k = 0"
proof -
  have t: "0 \<le> a (R_var i k j) \<and> a (R_var i k j) \<le> 1" for i
    using assms by (rule binary_range)
  show "0 \<le> eval a (r_sum k j)"
    unfolding eval_r_sum using t by (intro sum_nonneg) blast
  have "(\<Sum>i = 1..<k. a (R_var i k j)) \<le> of_nat (card {1..<k}) * 1"
    using t by (intro sum_bounded_above) blast
  then show "eval a (r_sum k j) \<le> int k - 1 \<or> k = 0"
    unfolding eval_r_sum by (cases k) auto
qed

lemma bigM_pair_iff:
  assumes "binary a" "1 \<le> j" "j \<le> 2 ^ n" "1 \<le> k" "k < R" "g = 0 \<or> g = - 1"
  shows "holds a (bigM_neg n (int n + int R) g k j) \<and> holds a (bigM_pos n (int n + int R) g k j)
    \<longleftrightarrow> a (P_var k j) = (if eval a (table_sum n j k) + eval a (r_sum k j) \<le> - g then 1 else 0)"
proof -
  define S where "S = eval a (table_sum n j k) + eval a (r_sum k j)"
  define A where "A = int n + int R"
  note tb = table_sum_bounds [OF assms(1-3), of k]
  from r_sum_bounds [OF assms(1), of k j] assms(4)
  have rb: "0 \<le> eval a (r_sum k j)" "eval a (r_sum k j) \<le> int k - 1" by auto
  from tb rb assms(4,5) have S: "0 \<le> S" "S \<le> A - 2" "2 \<le> A"
    by (simp_all add: S_def A_def)
  have eq: "holds a (bigM_neg n (int n + int R) g k j) \<longleftrightarrow> g - A * (1 - a (P_var k j)) \<le> - S"
    "holds a (bigM_pos n (int n + int R) g k j) \<longleftrightarrow> 1 - g - A * a (P_var k j) \<le> S"
    by (simp_all add: bigM_neg_def bigM_pos_def S_def A_def)
  from assms(1) have "a (P_var k j) = 0 \<or> a (P_var k j) = 1" by (simp add: binary_def)
  then show ?thesis
  proof
    assume p: "a (P_var k j) = 0"
    from assms(6) S show ?thesis
      unfolding eq S_def [symmetric] p by auto
  next
    assume p: "a (P_var k j) = 1"
    from assms(6) S show ?thesis
      unfolding eq S_def [symmetric] p by auto
  qed
qed

lemma bigM_elsewhere:
  "bigM_neg n A g k j \<notin> set (final_block n' gs tr)"
  "bigM_neg n A g k j \<notin> set (and_block n' R)"
  "bigM_neg n A g k j \<notin> set (fan_in_block n' gs)"
  "bigM_pos n A g k j \<notin> set (final_block n' gs tr)"
  "bigM_pos n A g k j \<notin> set (and_block n' R)"
  "bigM_pos n A g k j \<notin> set (fan_in_block n' gs)"
  by (auto dest!: in_final_block in_and_block in_fan_in_block
      simp: and_le_def and_ge_def bigM_neg_def bigM_pos_def final_row_def fan_in_def
      split: if_splits)

lemma count_gate_block:
  assumes "1 \<le> k" "k < length gs" "1 \<le> j" "j \<le> 2 ^ n"
  shows "count_list (gate_block n gs) (bigM_neg n (int n + int (length gs)) (gs ! (k - 1)) k j) = 1"
    and "count_list (gate_block n gs) (bigM_pos n (int n + int (length gs)) (gs ! (k - 1)) k j) = 1"
proof -
  let ?A = "int n + int (length gs)"
  let ?f = "\<lambda>(k, j). [bigM_neg n ?A (gs ! (k - 1)) k j, bigM_pos n ?A (gs ! (k - 1)) k j]"
  let ?xs = "List.product [1..<length gs] [1..<2 ^ n + 1]"
  have d: "distinct ?xs" by (simp add: distinct_product del: upt_Suc)
  from assms have m: "(k, j) \<in> set ?xs" by auto
  have inner_neg: "count_list (?f (k, j)) (bigM_neg n ?A (gs ! (k - 1)) k j) = 1"
    by (simp add: bigM_neg_def bigM_pos_def)
  have inner_pos: "count_list (?f (k, j)) (bigM_pos n ?A (gs ! (k - 1)) k j) = 1"
    by (simp add: bigM_neg_def bigM_pos_def)
  have other: "c \<notin> set (?f y)"
    if "y \<in> set ?xs" "y \<noteq> (k, j)"
      "c = bigM_neg n ?A (gs ! (k - 1)) k j \<or> c = bigM_pos n ?A (gs ! (k - 1)) k j"
    for y c
    using that by (cases y) (auto simp: bigM_neg_def bigM_pos_def)
  show "count_list (gate_block n gs) (bigM_neg n ?A (gs ! (k - 1)) k j) = 1"
    unfolding gate_block_def
    by (rule count_concat_one [where f = ?f and x = "(k, j)", OF d m inner_neg]) (rule other, simp_all)
  show "count_list (gate_block n gs) (bigM_pos n ?A (gs ! (k - 1)) k j) = 1"
    unfolding gate_block_def
    by (rule count_concat_one [where f = ?f and x = "(k, j)", OF d m inner_pos]) (rule other, simp_all)
qed

subsection \<open>The assignment matrix\<close>

lemma product_01_Suc_front:
  "product_01 (Suc n) = map ((#) 0) (product_01 n) @ map ((#) 1) (product_01 n)"
proof (induction n)
  case 0
  show ?case by simp
next
  case (Suc n)
  let ?f = "\<lambda>x::int list. map (\<lambda>y. x @ [y]) [0, 1]"
  have push: "concat (map ?f (map ((#) a) xs)) = map ((#) a) (concat (map ?f xs))" for a xs
    by (induction xs) simp_all
  have "product_01 (Suc (Suc n)) = concat (map ?f (product_01 (Suc n)))" by simp
  also have "\<dots> = concat (map ?f (map ((#) 0) (product_01 n)))
                   @ concat (map ?f (map ((#) 1) (product_01 n)))"
    by (simp only: Suc.IH map_append concat_append)
  also have "\<dots> = map ((#) 0) (concat (map ?f (product_01 n)))
                   @ map ((#) 1) (concat (map ?f (product_01 n)))"
    by (simp only: push)
  finally show ?case by simp
qed

lemma product_01_set: "set (product_01 n) = {bits. length bits = n \<and> set bits \<subseteq> {0, 1}}"
proof (induction n)
  case 0
  show ?case by auto
next
  case (Suc n)
  show ?case
  proof (intro set_eqI iffI)
    fix bits assume "bits \<in> set (product_01 (Suc n))"
    then show "bits \<in> {bits. length bits = Suc n \<and> set bits \<subseteq> {0, 1}}"
      using length_row_product_01 [of bits "Suc n"] product_01_bits [of bits "Suc n"] by simp
  next
    fix bits :: "int list"
    assume "bits \<in> {bits. length bits = Suc n \<and> set bits \<subseteq> {0, 1}}"
    then obtain b rest where b: "bits = b # rest" "length rest = n" "set rest \<subseteq> {0, 1}"
      "b = 0 \<or> b = 1"
      by (cases bits) auto
    with Suc.IH have "rest \<in> set (product_01 n)" by simp
    with b show "bits \<in> set (product_01 (Suc n))"
      unfolding product_01_Suc_front by auto
  qed
qed

lemma product_01_sorted: "sorted_wrt (<) (product_01 n)"
proof (induction n)
  case 0
  show ?case by simp
next
  case (Suc n)
  then have "sorted_wrt (<) (map ((#) a) (product_01 n))" for a :: int
    by (simp add: sorted_wrt_map)
  then show ?case
    unfolding product_01_Suc_front by (auto simp: sorted_wrt_append)
qed

lemma nth_concat_pairs:
  "jj < 2 * length xs \<Longrightarrow>
   concat (map (\<lambda>x. [f x, g x]) xs) ! jj
     = (if jj mod 2 = 0 then f (xs ! (jj div 2)) else g (xs ! (jj div 2)))"
proof (induction xs arbitrary: jj)
  case Nil
  then show ?case by simp
next
  case (Cons x xs)
  show ?case
  proof (cases jj)
    case 0
    then show ?thesis by simp
  next
    case (Suc m)
    show ?thesis
    proof (cases m)
      case 0
      with Suc show ?thesis by simp
    next
      case (Suc l)
      with \<open>jj = Suc m\<close> Cons.prems have "l < 2 * length xs" by simp
      from Cons.IH [OF this] Suc \<open>jj = Suc m\<close> show ?thesis by simp
    qed
  qed
qed

lemma make_table_Suc_nth:
  assumes "jj < 2 ^ Suc n"
  shows "make_table (Suc n) ! jj = int (jj mod 2) # make_table n ! (jj div 2)"
proof -
  from assms have lt: "jj < 2 * length (product_01 n)" "jj div 2 < length (product_01 n)"
    by (simp_all add: length_product_01 less_mult_imp_div_less)
  from assms have len: "jj < length (product_01 (Suc n))"
    by (simp only: length_product_01)
  have "product_01 (Suc n) = concat (map (\<lambda>x. [x @ [0], x @ [1]]) (product_01 n))" by simp
  with nth_concat_pairs [OF lt(1), of "\<lambda>x. x @ [0]" "\<lambda>x. x @ [1]"]
  have row: "product_01 (Suc n) ! jj = product_01 n ! (jj div 2) @ [int (jj mod 2)]"
    by (cases "jj mod 2 = 0") auto
  have "make_table (Suc n) ! jj = rev (product_01 (Suc n) ! jj)"
    unfolding make_table_def fliplr_def using len by (rule nth_map)
  also have "\<dots> = int (jj mod 2) # rev (product_01 n ! (jj div 2))"
    unfolding row by simp
  also have "rev (product_01 n ! (jj div 2)) = make_table n ! (jj div 2)"
    unfolding make_table_def fliplr_def using lt(2) by (rule nth_map [symmetric])
  finally show ?thesis .
qed

lemma make_table_nth:
  "jj < 2 ^ n \<Longrightarrow> c < n \<Longrightarrow> make_table n ! jj ! c = int ((jj div 2 ^ c) mod 2)"
proof (induction n arbitrary: jj c)
  case 0
  then show ?case by simp
next
  case (Suc n)
  from Suc.prems have d: "jj div 2 < 2 ^ n" by (simp add: less_mult_imp_div_less)
  show ?case
  proof (cases c)
    case 0
    with Suc.prems show ?thesis by (simp add: make_table_Suc_nth)
  next
    case (Suc c')
    with Suc.prems have "c' < n" by simp
    from Suc.IH [OF d this] Suc Suc.prems(1) show ?thesis
      by (simp add: make_table_Suc_nth div_mult2_eq)
  qed
qed

subsection \<open>Membership, and the calls that fail\<close>

lemma fan_in_member:
  assumes "length truth = 2 ^ n" and "list_all is_digit truth"
    and "1 \<le> k" and "k \<le> length (split_sp gates)"
  shows "fan_in n (gate_marker (split_sp gates ! (k - 1))) k
    \<in> set (constrs (fst (make_circuit_lp truth gates filename)))"
proof -
  let ?gs = "gate_markers gates"
  from assms have "k - 1 < length (split_sp gates)" by simp
  then have g: "?gs ! (k - 1) = gate_marker (split_sp gates ! (k - 1))"
    by (simp add: gate_markers_def)
  from assms have "k \<in> set [1..<length ?gs + 1]" by (auto simp: gate_markers_def)
  then have "fan_in n (?gs ! (k - 1)) k \<in> set (fan_in_block n ?gs)"
    unfolding fan_in_block_def set_map by (rule imageI)
  moreover have "set (fan_in_block n ?gs) \<subseteq> set (constrs (fst (make_circuit_lp truth gates filename)))"
    by (auto simp: make_circuit_lp_ok [OF assms(1,2)])
  ultimately show ?thesis unfolding g [symmetric] by blast
qed

lemma count_one_member: "count_list xs x = 1 \<Longrightarrow> x \<in> set xs"
  by (rule ccontr) simp

lemma bigM_member:
  assumes "length truth = 2 ^ n" and "list_all is_digit truth"
    and "1 \<le> k" and "k < length (split_sp gates)" and "1 \<le> j" and "j \<le> 2 ^ n"
  shows "bigM_neg n (int n + int (length (split_sp gates))) (gate_marker (split_sp gates ! (k - 1))) k j
      \<in> set (constrs (fst (make_circuit_lp truth gates filename)))"
    and "bigM_pos n (int n + int (length (split_sp gates))) (gate_marker (split_sp gates ! (k - 1))) k j
      \<in> set (constrs (fst (make_circuit_lp truth gates filename)))"
proof -
  let ?gs = "gate_markers gates"
  have len: "length ?gs = length (split_sp gates)" by (simp add: gate_markers_def)
  from assms(4) have kR: "k < length ?gs" by (simp add: len)
  from assms(3,4) have "k - 1 < length (split_sp gates)" by simp
  then have g: "?gs ! (k - 1) = gate_marker (split_sp gates ! (k - 1))"
    by (simp add: gate_markers_def)
  note c = count_gate_block [OF assms(3) kR assms(5,6), unfolded g len]
  have sub: "set (gate_block n ?gs) \<subseteq> set (constrs (fst (make_circuit_lp truth gates filename)))"
    by (auto simp: make_circuit_lp_ok [OF assms(1,2)])
  from c(1) have "bigM_neg n (int n + int (length (split_sp gates)))
      (gate_marker (split_sp gates ! (k - 1))) k j \<in> set (gate_block n ?gs)"
    by (rule count_one_member)
  with sub show "bigM_neg n (int n + int (length (split_sp gates)))
      (gate_marker (split_sp gates ! (k - 1))) k j
      \<in> set (constrs (fst (make_circuit_lp truth gates filename)))" by blast
  from c(2) have "bigM_pos n (int n + int (length (split_sp gates)))
      (gate_marker (split_sp gates ! (k - 1))) k j \<in> set (gate_block n ?gs)"
    by (rule count_one_member)
  with sub show "bigM_pos n (int n + int (length (split_sp gates)))
      (gate_marker (split_sp gates ! (k - 1))) k j
      \<in> set (constrs (fst (make_circuit_lp truth gates filename)))" by blast
qed

lemma parse_truth_bad:
  "\<not> list_all is_digit truth \<Longrightarrow> emap (\<lambda>i. py_int [i]) truth = Inl ValueError"
proof (induction truth)
  case Nil
  then show ?case by simp
next
  case (Cons c cs)
  show ?case
  proof (cases "is_digit c")
    case True
    with Cons show ?thesis by (simp add: py_int_digit)
  next
    case False
    then show ?thesis by (simp add: py_int_non_digit)
  qed
qed

lemma make_circuit_lp_empty:
  "make_circuit_lp [] gates filename = (Model, Inl OverflowError)"
  by (simp add: make_circuit_lp_def int_log2_def)

lemma make_circuit_lp_non_digit:
  assumes "truth \<noteq> []" "\<not> list_all is_digit truth"
  shows "make_circuit_lp truth gates filename = (Model, Inl ValueError)"
  using assms by (simp add: make_circuit_lp_def int_log2_def parse_truth_bad)

lemma alloc_all_nonempty:
  assumes "1 \<le> n" "1 \<le> R"
  shows "alloc_all n R \<noteq> []"
proof -
  from assms obtain n' R' where "n = Suc n'" "R = Suc R'"
    by (cases n; cases R) auto
  then have "alloc_U n R \<noteq> []" "hd (alloc_U n R) \<noteq> []"
    by (simp_all add: alloc_U_def upt_rec [of "Suc 0"])
  then have "concat (alloc_U n R) \<noteq> []" by (cases "alloc_U n R") auto
  then show ?thesis by (simp add: alloc_all_def)
qed

lemma ilog2_pos: "3 \<le> l \<Longrightarrow> 1 \<le> ilog2 l"
  by (subst ilog2.simps) simp

lemma three_not_power: "\<forall>n. (3::nat) \<noteq> 2 ^ n"
proof
  fix n show "(3::nat) \<noteq> 2 ^ n"
  proof (cases n)
    case 0
    then show ?thesis by simp
  next
    case (Suc m)
    have "even ((2::nat) ^ Suc m)" by simp
    moreover have "odd (3::nat)" by simp
    ultimately show ?thesis using Suc by metis
  qed
qed

subsection \<open>The decoder and the files\<close>

lemma decode_loop_filter:
  "decode_loop connect f
   = ebind (emap (\<lambda>l. connection (split_sp l)) (filter (\<lambda>l. obj_mark \<in> set (split_sp l)) f))
       (\<lambda>cs. Inr (connect @ cs))"
proof (induction f arbitrary: connect)
  case Nil
  show ?case by simp
next
  case (Cons l f)
  show ?case
  proof (cases "obj_mark \<in> set (split_sp l)")
    case False
    with Cons show ?thesis by simp
  next
    case True
    show ?thesis
    proof (cases "connection (split_sp l)")
      case (Inl e)
      with True show ?thesis by simp
    next
      case (Inr c)
      show ?thesis
      proof (cases "emap (\<lambda>l. connection (split_sp l)) (filter (\<lambda>l. obj_mark \<in> set (split_sp l)) f)")
        case (Inl e)
        with True Inr Cons [of "connect @ [c]"] show ?thesis by simp
      next
        case (Inr cs)
        with True \<open>connection (split_sp l) = Inr c\<close> Cons [of "connect @ [c]"] show ?thesis by simp
      qed
    qed
  qed
qed

lemma emap_Inr_map: "emap f xs = Inr ys \<Longrightarrow> map Inr ys = map f xs"
proof (induction xs arbitrary: ys)
  case Nil
  then show ?case by simp
next
  case (Cons x xs)
  from Cons.prems obtain y ys' where "f x = Inr y" "emap f xs = Inr ys'" "ys = y # ys'"
    by (auto simp: ebind_def split: sum.splits)
  with Cons.IH show ?case by simp
qed

lemma decode_loop_Inr:
  "decode_loop [] f = Inr connect \<Longrightarrow>
   map Inr connect = map (\<lambda>l. connection (split_sp l)) (filter (\<lambda>l. obj_mark \<in> set (split_sp l)) f)"
  by (rule emap_Inr_map) (auto simp: decode_loop_filter ebind_def split: sum.splits)

lemma decode_loop_unmarked:
  "\<forall>l \<in> set f. obj_mark \<notin> set (split_sp l) \<Longrightarrow> decode_loop [] f = Inr []"
proof -
  assume "\<forall>l \<in> set f. obj_mark \<notin> set (split_sp l)"
  then have "filter (\<lambda>l. obj_mark \<in> set (split_sp l)) f = []" by (simp add: filter_empty_conv)
  then show ?thesis by (simp add: decode_loop_filter)
qed

lemma solve_circuit_lp_decodes:
  assumes "make_circuit_lp truth gates (Some (norm_filename filename)) = (M, Inr path)"
    and "files (run_solver E (norm_filename filename) path M verbose w) (norm_filename filename @ ''.log'')
         = Some f"
  shows "fst (solve_circuit_lp E truth gates filename verbose delete_lp delete_log w)
         = decode_loop [] f"
  using assms
  by (simp add: solve_circuit_lp_def Let_def log_event_def split: sum.splits)

lemma ebind_Inr_right: "ebind m (\<lambda>x. Inr x) = m"
  by (cases m) simp_all

lemma emap_Inl_source: "emap f xs = Inl e \<Longrightarrow> \<exists>x \<in> set xs. f x = Inl e"
proof (induction xs)
  case Nil
  then show ?case by simp
next
  case (Cons x xs)
  then show ?case
    by (cases "f x"; cases "emap f xs") auto
qed

lemma emap_Inl_exists: "x \<in> set xs \<Longrightarrow> f x = Inl e \<Longrightarrow> \<exists>e'. emap f xs = Inl e'"
proof (induction xs)
  case Nil
  then show ?case by simp
next
  case (Cons y ys)
  then show ?case
    by (cases "f y"; cases "emap f ys") auto
qed

lemma unsigned_int_error: "unsigned_int s = Inl e \<Longrightarrow> e = ValueError"
  by (auto simp: unsigned_int_def split: list.splits if_splits option.splits)

lemma py_int_whitespace:
  "py_int [CHR 0x1C, CHR ''1''] = Inl ValueError"
  "py_int [CHR 0xA0, CHR ''1'', CHR 0x85] = Inr 1"
  "py_int (CHR 0x09 # '' -1_0 '' @ [CHR 0x0A]) = Inr (- 10)"
  by code_simp+

lemma py_int_error: "py_int s = Inl e \<Longrightarrow> e = ValueError"
  by (auto simp: py_int_def ebind_def split: list.splits if_splits sum.splits
      dest: unsigned_int_error)

lemma connection_cases:
  "connection line =
     (if length line < 2 then Inl IndexError
      else case py_int (line ! (length line - 2)) of
             Inl e \<Rightarrow> Inl ValueError
           | Inr val \<Rightarrow> Inr (line ! 0, val))"
proof (cases "length line < 2")
  case True
  then show ?thesis
    by (cases line) (simp_all add: connection_def get_def get_from_end2_def)
next
  case False
  then have "0 < length line" "2 \<le> length line" by linarith+
  then have "get line 0 = Inr (line ! 0)" "get_from_end2 line = Inr (line ! (length line - 2))"
    by (simp_all add: get_def get_from_end2_def)
  with False show ?thesis
    by (auto simp: connection_def split: sum.splits dest: py_int_error)
qed

lemma connection_error: "connection line = Inl e \<Longrightarrow> e = IndexError \<or> e = ValueError"
  by (auto simp: connection_cases split: if_splits sum.splits)









lemma unsigned_int_limit:
  "max_str_digits < length (filter is_digit s) \<Longrightarrow> unsigned_int s = Inl ValueError"
  by (auto simp: unsigned_int_def split: list.splits option.splits)



lemma lp_not_log: "b @ ''.lp'' \<noteq> b @ ''.log''"
  by simp

section \<open>The claims\<close>

text \<open>
  Claim C4.  For a truth string of \<open>2\<^sup>n\<close> digits and every gate \<open>k\<close> from 1 to \<open>R\<close>,
  \<open>make_circuit_lp\<close> returns normally and its model contains the fan-in constraint
  \<open>\<Sum>\<^sub>e u[e][k] + \<Sum>\<^bsub>i<k\<^esub> v[i][k] \<le> 1 - marker(k)\<close>, so that in every feasible 0/1 assignment a
  \<^verbatim>\<open>NOT\<close> gate has at most one incoming connection and any other gate at most two.
\<close>

theorem fan_in_cap:
  assumes "length truth = 2 ^ n" and "list_all is_digit truth"
    and "1 \<le> k" and "k \<le> length (split_sp gates)"
  shows "(\<exists>path. snd (make_circuit_lp truth gates filename) = Inr path)
    \<and> Le (Plus (Plus (Num 0) (xsum (map (\<lambda>el. Var (U_var el k)) [1..<n + 1])))
                (xsum (map (\<lambda>i. Var (V_var i k)) [1..<k])))
          (Num (1 - gate_marker (split_sp gates ! (k - 1))))
        \<in> set (constrs (fst (make_circuit_lp truth gates filename)))
    \<and> (\<forall>a. feasible a (fst (make_circuit_lp truth gates filename)) \<longrightarrow>
          (\<Sum>el = 1..n. a (U_var el k)) + (\<Sum>i = 1..<k. a (V_var i k))
            \<le> (if split_sp gates ! (k - 1) = ''NOT'' then 1 else 2))"
proof -
  let ?gs = "gate_markers gates"
  let ?M = "fst (make_circuit_lp truth gates filename)"
  from assms have k: "k - 1 < length (split_sp gates)" by simp
  then have g: "?gs ! (k - 1) = gate_marker (split_sp gates ! (k - 1))"
    by (simp add: gate_markers_def)
  from assms have "k \<in> set [1..<length ?gs + 1]" by (auto simp: gate_markers_def)
  then have "fan_in n (?gs ! (k - 1)) k \<in> set (fan_in_block n ?gs)"
    unfolding fan_in_block_def set_map by (rule imageI)
  moreover have "set (fan_in_block n ?gs) \<subseteq> set (constrs ?M)"
    by (auto simp: make_circuit_lp_ok [OF assms(1,2)])
  ultimately have "fan_in n (?gs ! (k - 1)) k \<in> set (constrs ?M)" by blast
  then have mem: "fan_in n (gate_marker (split_sp gates ! (k - 1))) k \<in> set (constrs ?M)"
    unfolding g .
  have "\<forall>a. feasible a ?M \<longrightarrow>
          (\<Sum>el = 1..n. a (U_var el k)) + (\<Sum>i = 1..<k. a (V_var i k))
            \<le> (if split_sp gates ! (k - 1) = ''NOT'' then 1 else 2)"
  proof (intro allI impI)
    fix a assume "feasible a ?M"
    with mem have "holds a (fan_in n (gate_marker (split_sp gates ! (k - 1))) k)"
      by (simp add: feasible_def list_all_iff)
    then show "(\<Sum>el = 1..n. a (U_var el k)) + (\<Sum>i = 1..<k. a (V_var i k))
            \<le> (if split_sp gates ! (k - 1) = ''NOT'' then 1 else 2)"
      by (simp add: eval_fan_in gate_marker_def split: if_splits)
  qed
  with mem show ?thesis
    by (simp add: make_circuit_lp_ok [OF assms(1,2)] fan_in_def)
qed

text \<open>
  The two-inverter circuit is feasible for \<^verbatim>\<open>'01'\<close> and \<^verbatim>\<open>'NOT NOT'\<close>, and its second gate has
  exactly one incoming connection.
\<close>

theorem fan_in_cap_witness:
  "feasible double_not (fst (make_circuit_lp ''01'' ''NOT NOT'' None))
   \<and> (\<Sum>el = 1..1. double_not (U_var el 2)) + (\<Sum>i = 1..<2. double_not (V_var i 2)) \<le> 1
   \<and> Le (Plus (Plus (Num 0) (xsum (map (\<lambda>el. Var (U_var el 2)) [1..<1 + 1])))
                (xsum (map (\<lambda>i. Var (V_var i 2)) [1..<2])))
          (Num 1)
        \<in> set (constrs (fst (make_circuit_lp ''01'' ''NOT NOT'' None)))"
proof -
  have h: "length ''01'' = 2 ^ 1" "list_all is_digit ''01''" "(1::nat) \<le> 2"
    "2 \<le> length (split_sp ''NOT NOT'')"
    by (simp_all add: is_digit_def)
  have tag: "split_sp ''NOT NOT'' ! (2 - 1) = ''NOT''" by simp
  from fan_in_cap [OF h, of None] double_not_feasible show ?thesis
    unfolding tag by (simp add: gate_marker_def)
qed

text \<open>
  Claim C3.  For a truth string of \<open>2\<^sup>n\<close> digits, every gate \<open>k\<close> from 2 to \<open>R\<close>, every
  row \<open>j\<close> from 1 to \<open>2\<^sup>n\<close> and every \<open>i\<close> from 1 to \<open>k - 1\<close>, the model holds each of the two
  inequalities \<open>p[i][j] + v[i][k] - r[i][k][j] \<le> 1\<close> and \<open>p[i][j] + v[i][k] - 2 r[i][k][j] \<ge> 0\<close>
  exactly once, and in every 0/1 assignment the two hold together if and only if
  \<open>r[i][k][j]\<close> is 1 when \<open>p[i][j]\<close> and \<open>v[i][k]\<close> are both 1, and 0 otherwise.
\<close>

theorem and_linearization:
  assumes "length truth = 2 ^ n" and "list_all is_digit truth"
    and "2 \<le> k" and "k \<le> length (split_sp gates)"
    and "1 \<le> j" and "j \<le> 2 ^ n" and "1 \<le> i" and "i < k"
  shows "(\<exists>path. snd (make_circuit_lp truth gates filename) = Inr path)
    \<and> count_list (constrs (fst (make_circuit_lp truth gates filename)))
         (Le (Minus (Plus (Var (P_var i j)) (Var (V_var i k))) (Var (R_var i k j))) (Num 1)) = 1
    \<and> count_list (constrs (fst (make_circuit_lp truth gates filename)))
         (Ge (Minus (Plus (Var (P_var i j)) (Var (V_var i k))) (Times 2 (Var (R_var i k j))))
             (Num 0)) = 1
    \<and> (\<forall>a. binary a \<longrightarrow>
          (holds a (Le (Minus (Plus (Var (P_var i j)) (Var (V_var i k))) (Var (R_var i k j)))
                       (Num 1))
           \<and> holds a (Ge (Minus (Plus (Var (P_var i j)) (Var (V_var i k)))
                                (Times 2 (Var (R_var i k j)))) (Num 0))
           \<longleftrightarrow> a (R_var i k j) = (if a (P_var i j) = 1 \<and> a (V_var i k) = 1 then 1 else 0)))"
proof -
  from assms(4) have R: "k \<le> length (gate_markers gates)" by (simp add: gate_markers_def)
  note c = count_and_block [OF assms(3) R assms(5-8)]
  have "constrs (fst (make_circuit_lp truth gates filename))
      = gate_block n (gate_markers gates)
        @ final_block n (gate_markers gates) (map digit_val truth)
        @ and_block n (length (gate_markers gates))
        @ fan_in_block n (gate_markers gates)"
    by (simp add: make_circuit_lp_ok [OF assms(1,2)])
  then have "count_list (constrs (fst (make_circuit_lp truth gates filename))) (and_le i k j) = 1"
    and "count_list (constrs (fst (make_circuit_lp truth gates filename))) (and_ge i k j) = 1"
    by (simp_all add: c and_le_elsewhere and_ge_elsewhere)
  moreover have "\<exists>path. snd (make_circuit_lp truth gates filename) = Inr path"
    by (simp add: make_circuit_lp_ok [OF assms(1,2)])
  ultimately show ?thesis
    using and_pair_iff [of _ i k j] unfolding and_le_def and_ge_def by blast
qed

text \<open>
  In the two-inverter circuit gate 1 is 1 on row 1 and feeds gate 2, so \<open>r.1.2.1 = 1\<close>.
\<close>

theorem and_linearization_witness:
  "binary double_not
   \<and> holds double_not (Le (Minus (Plus (Var (P_var 1 1)) (Var (V_var 1 2))) (Var (R_var 1 2 1)))
                          (Num 1))
   \<and> holds double_not (Ge (Minus (Plus (Var (P_var 1 1)) (Var (V_var 1 2)))
                                (Times 2 (Var (R_var 1 2 1)))) (Num 0))
   \<and> double_not (R_var 1 2 1) = 1
   \<and> count_list (constrs (fst (make_circuit_lp ''01'' ''NOT NOT'' None)))
         (Le (Minus (Plus (Var (P_var 1 1)) (Var (V_var 1 2))) (Var (R_var 1 2 1))) (Num 1)) = 1"
proof -
  have h: "length ''01'' = 2 ^ 1" "list_all is_digit ''01''" "(2::nat) \<le> 2"
    "2 \<le> length (split_sp ''NOT NOT'')" "(1::nat) \<le> 1" "(1::nat) \<le> 2 ^ 1" "(1::nat) \<le> 1"
    "(1::nat) < 2"
    by (simp_all add: is_digit_def)
  have b: "binary double_not" by (simp add: binary_def double_not_def)
  from and_linearization [OF h, of None] b show ?thesis
    by (simp add: double_not_def)
qed

text \<open>
  Claim C2.  For a truth string of \<open>2\<^sup>n\<close> digits, every gate \<open>k\<close> from 1 to \<open>R - 1\<close> and every
  row \<open>j\<close> from 1 to \<open>2\<^sup>n\<close>, the model holds exactly one pair of big-M inequalities over the
  sum \<open>S = \<Sum>\<^sub>e table[j][e] \<sqdot> u[e][k] + \<Sum>\<^bsub>i<k\<^esub> r[i][k][j]\<close>, with \<open>A = n + R\<close>:
  \<open>-S \<ge> marker(k) - A (1 - p[k][j])\<close> and \<open>S \<ge> 1 - marker(k) - A p[k][j]\<close>.  In every 0/1
  assignment the two hold together if and only if \<open>p[k][j]\<close> is the output of gate \<open>k\<close> on
  its connected inputs: 1 when none of them is 1 for a \<^verbatim>\<open>NOT\<close> gate, and 1 when at most one
  of them is 1 for a NAND gate (which has at most two).
\<close>

theorem gate_bigM_pair:
  fixes g A :: int
  assumes "length truth = 2 ^ n" and "list_all is_digit truth"
    and "1 \<le> k" and "k < length (split_sp gates)"
    and "1 \<le> j" and "j \<le> 2 ^ n"
  defines "g \<equiv> gate_marker (split_sp gates ! (k - 1))"
    and "A \<equiv> int n + int (length (split_sp gates))"
  shows "(\<exists>path. snd (make_circuit_lp truth gates filename) = Inr path)
    \<and> count_list (constrs (fst (make_circuit_lp truth gates filename)))
         (Ge (Plus (Plus (Num 0) (Neg (table_sum n j k))) (Neg (r_sum k j)))
             (Minus (Num g) (Times A (Minus (Num 1) (Var (P_var k j)))))) = 1
    \<and> count_list (constrs (fst (make_circuit_lp truth gates filename)))
         (Ge (Plus (Plus (Num 0) (table_sum n j k)) (r_sum k j))
             (Minus (Num (1 - g)) (Times A (Var (P_var k j))))) = 1
    \<and> (\<forall>a. binary a \<longrightarrow>
          (holds a (Ge (Plus (Plus (Num 0) (Neg (table_sum n j k))) (Neg (r_sum k j)))
                       (Minus (Num g) (Times A (Minus (Num 1) (Var (P_var k j))))))
           \<and> holds a (Ge (Plus (Plus (Num 0) (table_sum n j k)) (r_sum k j))
                         (Minus (Num (1 - g)) (Times A (Var (P_var k j)))))
           \<longleftrightarrow> a (P_var k j)
                = (if (\<Sum>el = 1..n. make_table n ! (j - 1) ! (el - 1) * a (U_var el k))
                        + (\<Sum>i = 1..<k. a (R_var i k j))
                      \<le> (if split_sp gates ! (k - 1) = ''NOT'' then 0 else 1)
                   then 1 else 0)))"
proof -
  let ?gs = "gate_markers gates"
  let ?M = "fst (make_circuit_lp truth gates filename)"
  have len: "length ?gs = length (split_sp gates)" by (simp add: gate_markers_def)
  from assms(4) have kR: "k < length ?gs" by (simp add: len)
  from assms(3,4) have "k - 1 < length (split_sp gates)" by simp
  then have g: "?gs ! (k - 1) = g" by (simp add: gate_markers_def g_def)
  have A: "int n + int (length ?gs) = A" by (simp add: A_def len)
  note c = count_gate_block [OF assms(3) kR assms(5,6), unfolded g A]
  have cs: "constrs ?M
      = gate_block n ?gs @ final_block n ?gs (map digit_val truth)
        @ and_block n (length ?gs) @ fan_in_block n ?gs"
    by (simp add: make_circuit_lp_ok [OF assms(1,2)])
  have c1: "count_list (constrs ?M) (bigM_neg n A g k j) = 1"
    and c2: "count_list (constrs ?M) (bigM_pos n A g k j) = 1"
    unfolding cs by (simp_all add: c bigM_elsewhere)
  have ok: "\<exists>path. snd (make_circuit_lp truth gates filename) = Inr path"
    by (simp add: make_circuit_lp_ok [OF assms(1,2)])
  have g01: "g = 0 \<or> g = - 1" by (simp add: g_def gate_marker_def)
  have thr: "- g = (if split_sp gates ! (k - 1) = ''NOT'' then 0 else 1)"
    by (simp add: g_def gate_marker_def)
  have sem: "holds a (bigM_neg n A g k j) \<and> holds a (bigM_pos n A g k j)
      \<longleftrightarrow> a (P_var k j)
                = (if (\<Sum>el = 1..n. make_table n ! (j - 1) ! (el - 1) * a (U_var el k))
                        + (\<Sum>i = 1..<k. a (R_var i k j))
                      \<le> (if split_sp gates ! (k - 1) = ''NOT'' then 0 else 1)
                   then 1 else 0)" if "binary a" for a
    using bigM_pair_iff [OF that assms(5,6,3,4) g01]
    unfolding A_def [symmetric] eval_table_sum eval_r_sum thr .
  from ok c1 c2 sem show ?thesis
    unfolding bigM_neg_def bigM_pos_def by blast
qed

text \<open>
  Gate 1 of the two-inverter circuit on row 1: input 1 is 0 there, the sum is 0 and the
  inverter's output \<open>p.1.1\<close> is 1.
\<close>

theorem gate_bigM_pair_witness:
  "binary double_not
   \<and> holds double_not
        (Ge (Plus (Plus (Num 0) (Neg (table_sum 1 1 1))) (Neg (r_sum 1 1)))
            (Minus (Num 0) (Times 3 (Minus (Num 1) (Var (P_var 1 1))))))
   \<and> holds double_not
        (Ge (Plus (Plus (Num 0) (table_sum 1 1 1)) (r_sum 1 1))
            (Minus (Num 1) (Times 3 (Var (P_var 1 1)))))
   \<and> double_not (P_var 1 1) = 1
   \<and> (\<Sum>el = 1..1. make_table 1 ! (1 - 1) ! (el - 1) * double_not (U_var el 1))
       + (\<Sum>i = 1..<1. double_not (R_var i 1 1)) = 0
   \<and> count_list (constrs (fst (make_circuit_lp ''01'' ''NOT NOT'' None)))
        (Ge (Plus (Plus (Num 0) (Neg (table_sum 1 1 1))) (Neg (r_sum 1 1)))
            (Minus (Num 0) (Times 3 (Minus (Num 1) (Var (P_var 1 1)))))) = 1"
proof -
  have h: "length ''01'' = 2 ^ 1" "list_all is_digit ''01''" "(1::nat) \<le> 1"
    "1 < length (split_sp ''NOT NOT'')" "(1::nat) \<le> 1" "(1::nat) \<le> 2 ^ 1"
    by (simp_all add: is_digit_def)
  have b: "binary double_not" by (simp add: binary_def double_not_def)
  have e: "gate_marker (split_sp ''NOT NOT'' ! (1 - 1)) = 0"
    "int 1 + int (length (split_sp ''NOT NOT'')) = 3"
    by (simp_all add: gate_marker_def)
  from gate_bigM_pair [OF h, of None, unfolded e]
  have cnt: "count_list (constrs (fst (make_circuit_lp ''01'' ''NOT NOT'' None)))
        (Ge (Plus (Plus (Num 0) (Neg (table_sum 1 1 1))) (Neg (r_sum 1 1)))
            (Minus (Num 0) (Times 3 (Minus (Num 1) (Var (P_var 1 1)))))) = 1"
    by simp
  have h1: "holds double_not
        (Ge (Plus (Plus (Num 0) (Neg (table_sum 1 1 1))) (Neg (r_sum 1 1)))
            (Minus (Num 0) (Times 3 (Minus (Num 1) (Var (P_var 1 1))))))"
    by code_simp
  have h2: "holds double_not
        (Ge (Plus (Plus (Num 0) (table_sum 1 1 1)) (r_sum 1 1))
            (Minus (Num 1) (Times 3 (Var (P_var 1 1)))))"
    by code_simp
  have p: "double_not (P_var 1 1) = 1" by (simp add: double_not_def)
  have s: "(\<Sum>el = 1..1. make_table 1 ! (1 - 1) ! (el - 1) * double_not (U_var el 1))
       + (\<Sum>i = 1..<1. double_not (R_var i 1 1)) = 0"
    by (simp add: make_table_def fliplr_def)
  from b h1 h2 p s cnt show ?thesis by blast
qed

text \<open>
  Claim C1, at \<^verbatim>\<open>truth = '10'\<close> and \<^verbatim>\<open>gates = 'NAND NOT'\<close>.  The last gate is the \<^verbatim>\<open>NOT\<close>
  gate 2, whose own marker is 0, so the claim asks for \<open>-S \<ge> 0\<close> on row 1 (target 1) and
  \<open>S \<ge> 1\<close> on row 2 (target 0).  Lines 112 and 116 read \<^verbatim>\<open>gates[k-1]\<close> with the \<open>k\<close> the
  loop of line 97 left behind, which is gate 1, the NAND gate with marker \<open>-1\<close>: the two
  final-gate constraints of the model (the fifth and the sixth) are \<open>-S \<ge> -1\<close> and \<open>S \<ge> 2\<close>.
  With them the model has no feasible assignment, although the single inverter on input 1
  computes \<^verbatim>\<open>'10'\<close>: it satisfies the two inequalities the claim states and every
  constraint of the model but the sixth.
\<close>

theorem final_gate_marker_stale:
  "snd (make_circuit_lp ''10'' ''NAND NOT'' None) = Inr ''circuit.lp''
   \<and> gate_markers ''NAND NOT'' = [- 1, 0]
   \<and> take 2 (drop 4 (constrs (fst (make_circuit_lp ''10'' ''NAND NOT'' None))))
       = [Ge (Plus (Plus (Num 0) (Neg (table_sum 1 1 2))) (Neg (r_sum 2 1))) (Num (- 1)),
          Ge (Plus (Plus (Num 0) (table_sum 1 2 2)) (r_sum 2 2)) (Num 2)]
   \<and> \<not> (\<exists>a. feasible a (fst (make_circuit_lp ''10'' ''NAND NOT'' None)))
   \<and> binary single_not
   \<and> holds single_not (Ge (Plus (Plus (Num 0) (Neg (table_sum 1 1 2))) (Neg (r_sum 2 1))) (Num 0))
   \<and> holds single_not (Ge (Plus (Plus (Num 0) (table_sum 1 2 2)) (r_sum 2 2)) (Num 1))
   \<and> list_all (holds single_not)
        (take 5 (constrs (fst (make_circuit_lp ''10'' ''NAND NOT'' None)))
         @ drop 6 (constrs (fst (make_circuit_lp ''10'' ''NAND NOT'' None))))"
proof -
  let ?M = "fst (make_circuit_lp ''10'' ''NAND NOT'' None)"
  have 1: "snd (make_circuit_lp ''10'' ''NAND NOT'' None) = Inr ''circuit.lp''" by code_simp
  have 2: "gate_markers ''NAND NOT'' = [- 1, 0]" by code_simp
  have 3: "take 2 (drop 4 (constrs ?M))
       = [Ge (Plus (Plus (Num 0) (Neg (table_sum 1 1 2))) (Neg (r_sum 2 1))) (Num (- 1)),
          Ge (Plus (Plus (Num 0) (table_sum 1 2 2)) (r_sum 2 2)) (Num 2)]"
    by code_simp
  have 4: "\<not> (\<exists>a. feasible a ?M)"
  proof
    assume "\<exists>a. feasible a ?M"
    then obtain a where b: "binary a" and all: "list_all (holds a) (constrs ?M)"
      by (auto simp: feasible_def)
    have "Ge (Plus (Plus (Num 0) (table_sum 1 2 2)) (r_sum 2 2)) (Num 2) \<in> set (constrs ?M)"
      and "and_ge 1 2 2 \<in> set (constrs ?M)"
      and "fan_in 1 0 2 \<in> set (constrs ?M)"
      by code_simp+
    moreover have "holds a c" if "c \<in> set (constrs ?M)" for c
      using all that by (simp add: list_all_iff)
    ultimately have "holds a (Ge (Plus (Plus (Num 0) (table_sum 1 2 2)) (r_sum 2 2)) (Num 2))"
      and "holds a (and_ge 1 2 2)" and "holds a (fan_in 1 0 2)"
      by blast+
    then have "2 \<le> a (U_var 1 2) + a (R_var 1 2 2)"
      and "0 \<le> a (P_var 1 2) + a (V_var 1 2) - 2 * a (R_var 1 2 2)"
      and "a (U_var 1 2) + a (V_var 1 2) \<le> 1"
      by (simp_all add: table_sum_def r_sum_def and_ge_def fan_in_def make_table_def fliplr_def
          upt_rec [of "Suc 0" 2] upt_rec [of 2 2])
    with binary_range [OF b, of "U_var 1 2"] binary_range [OF b, of "R_var 1 2 2"]
      binary_range [OF b, of "P_var 1 2"] binary_range [OF b, of "V_var 1 2"]
    show False by arith
  qed
  have 5: "binary single_not" by (simp add: binary_def single_not_def)
  have 6: "holds single_not (Ge (Plus (Plus (Num 0) (Neg (table_sum 1 1 2))) (Neg (r_sum 2 1))) (Num 0))"
    by code_simp
  have 7: "holds single_not (Ge (Plus (Plus (Num 0) (table_sum 1 2 2)) (r_sum 2 2)) (Num 1))"
    by code_simp
  have 8: "list_all (holds single_not) (take 5 (constrs ?M) @ drop 6 (constrs ?M))"
    by code_simp
  from 1 2 3 4 5 6 7 8 show ?thesis by blast
qed

text \<open>
  Claim C5, as amended.  The assignment matrix has \<open>2\<^sup>n\<close> rows of \<open>n\<close> bits; its rows with
  the columns reversed are the Cartesian product \<open>{0,1}\<^sup>n\<close> listed in strictly increasing
  lexicographic order; and column \<open>c + 1\<close> of row \<open>jj + 1\<close> holds bit \<open>c\<close> of the row's
  enumeration index \<open>jj\<close>: column 1 is the least significant input bit and column \<open>n\<close>
  the most significant, as in the truth table of the docstring, where \<^verbatim>\<open>X1\<close> alternates
  fastest.
\<close>

theorem assignment_matrix:
  "length (make_table n) = 2 ^ n
   \<and> (\<forall>row \<in> set (make_table n). length row = n)
   \<and> sorted_wrt (<) (map rev (make_table n))
   \<and> set (map rev (make_table n)) = {bits. length bits = n \<and> set bits \<subseteq> {0, 1}}
   \<and> (\<forall>jj < 2 ^ n. \<forall>c < n. make_table n ! jj ! c = int ((jj div 2 ^ c) mod 2))"
proof -
  have unflip: "map rev (make_table n) = product_01 n"
    by (simp add: make_table_def fliplr_def o_def)
  have "\<forall>row \<in> set (make_table n). length row = n"
    by (auto simp: make_table_def fliplr_def length_row_product_01)
  then show ?thesis
    unfolding unflip
    using length_make_table [of n] product_01_sorted [of n] product_01_set [of n] make_table_nth [of _ n]
    by blast
qed

text \<open>The second row of the matrix for three inputs: its first column is bit 0 of index 1.\<close>

theorem assignment_matrix_witness:
  "(1::nat) < 2 ^ 3 \<and> (0::nat) < 3
   \<and> make_table 3 ! 1 ! 0 = int ((1 div 2 ^ 0) mod 2)
   \<and> make_table 3 ! 1 ! 0 = 1
   \<and> make_table 3 ! 1 \<in> set (make_table 3) \<and> length (make_table 3 ! 1) = 3"
proof -
  have h: "(1::nat) < 2 ^ 3" "(0::nat) < 3" by simp_all
  from assignment_matrix [of 3] h
  have 1: "make_table 3 ! 1 ! 0 = int ((1 div 2 ^ 0) mod 2)" by blast
  have 2: "make_table 3 ! 1 \<in> set (make_table 3)" by code_simp
  with assignment_matrix [of 3] have 3: "length (make_table 3 ! 1) = 3" by blast
  from 1 have 4: "make_table 3 ! 1 ! 0 = 1" by simp
  from h 1 2 3 4 show ?thesis by blast
qed

text \<open>
  Claim C5 as stated fails: the second row for three inputs is \<open>1 0 0\<close>, its first column is
  1, and the most significant of the three bits of its index 1 is 0.
\<close>

theorem column_one_not_most_significant:
  "make_table 3 ! 1 = [1, 0, 0] \<and> make_table 3 ! 1 ! 0 \<noteq> int ((1 div 2 ^ (3 - 1)) mod 2)"
  by code_simp

text \<open>
  Claim C9.  Every tag of the gate sequence is mapped to its marker without any check: the
  tag \<^verbatim>\<open>NOT\<close> to 0 and every other tag (\<^verbatim>\<open>NAND\<close>, an unknown word, a word in another case,
  the empty word between two spaces) to \<open>-1\<close>.  For a truth string of \<open>2\<^sup>n\<close> digits the call
  returns normally whatever the tags are, and the marker \<open>m\<close> of gate \<open>k\<close> is the one its
  constraints carry: the bound \<open>1 - m\<close> of its fan-in constraint and, for a gate before
  the last, the markers of its big-M pair on every row.
\<close>

theorem gate_tag_marker:
  fixes m :: int
  assumes "length truth = 2 ^ n" and "list_all is_digit truth"
    and "1 \<le> k" and "k \<le> length (split_sp gates)"
  defines "m \<equiv> (if split_sp gates ! (k - 1) = ''NOT'' then 0 else - 1)"
  shows "(\<exists>path. snd (make_circuit_lp truth gates filename) = Inr path)
    \<and> gate_markers gates ! (k - 1) = m
    \<and> Le (Plus (Plus (Num 0) (xsum (map (\<lambda>el. Var (U_var el k)) [1..<n + 1])))
                (xsum (map (\<lambda>i. Var (V_var i k)) [1..<k])))
          (Num (1 - m))
        \<in> set (constrs (fst (make_circuit_lp truth gates filename)))
    \<and> (\<forall>j. k < length (split_sp gates) \<and> 1 \<le> j \<and> j \<le> 2 ^ n \<longrightarrow>
          Ge (Plus (Plus (Num 0) (Neg (table_sum n j k))) (Neg (r_sum k j)))
             (Minus (Num m)
                (Times (int n + int (length (split_sp gates))) (Minus (Num 1) (Var (P_var k j)))))
            \<in> set (constrs (fst (make_circuit_lp truth gates filename)))
          \<and> Ge (Plus (Plus (Num 0) (table_sum n j k)) (r_sum k j))
               (Minus (Num (1 - m))
                  (Times (int n + int (length (split_sp gates))) (Var (P_var k j))))
            \<in> set (constrs (fst (make_circuit_lp truth gates filename))))
    \<and> gate_marker ''NOT'' = 0 \<and> gate_marker ''NAND'' = - 1
    \<and> gate_marker ''XOR'' = - 1 \<and> gate_marker ''not'' = - 1 \<and> gate_marker [] = - 1"
proof -
  have m: "gate_marker (split_sp gates ! (k - 1)) = m" by (simp add: m_def gate_marker_def)
  from assms(3,4) have "k - 1 < length (split_sp gates)" by simp
  then have "gate_markers gates ! (k - 1) = gate_marker (split_sp gates ! (k - 1))"
    by (simp add: gate_markers_def)
  then have 1: "gate_markers gates ! (k - 1) = m" unfolding m .
  have 0: "\<exists>path. snd (make_circuit_lp truth gates filename) = Inr path"
    by (simp add: make_circuit_lp_ok [OF assms(1,2)])
  note 2 = fan_in_member [OF assms(1-4), of filename, unfolded m fan_in_def]
  have 3: "bigM_neg n (int n + int (length (split_sp gates))) m k j
            \<in> set (constrs (fst (make_circuit_lp truth gates filename)))
         \<and> bigM_pos n (int n + int (length (split_sp gates))) m k j
            \<in> set (constrs (fst (make_circuit_lp truth gates filename)))"
    if "k < length (split_sp gates) \<and> 1 \<le> j \<and> j \<le> 2 ^ n" for j
    using bigM_member [OF assms(1,2,3), of gates j filename] that unfolding m by blast
  have 4: "gate_marker ''NOT'' = 0 \<and> gate_marker ''NAND'' = - 1
    \<and> gate_marker ''XOR'' = - 1 \<and> gate_marker ''not'' = - 1 \<and> gate_marker [] = - 1"
    by (simp add: gate_marker_def)
  from 0 1 2 3 4 show ?thesis
    unfolding bigM_neg_def bigM_pos_def by blast
qed

text \<open>The unknown tag \<^verbatim>\<open>XOR\<close> is taken as a NAND gate: fan-in bound 2, marker \<open>-1\<close>.\<close>

theorem gate_tag_marker_witness:
  "length ''01'' = 2 ^ 1 \<and> list_all is_digit ''01'' \<and> split_sp ''XOR NOT'' = [''XOR'', ''NOT'']
   \<and> snd (make_circuit_lp ''01'' ''XOR NOT'' None) = Inr ''circuit.lp''
   \<and> gate_markers ''XOR NOT'' ! (1 - 1) = - 1
   \<and> Le (Plus (Plus (Num 0) (xsum (map (\<lambda>el. Var (U_var el 1)) [1..<1 + 1])))
                (xsum (map (\<lambda>i. Var (V_var i 1)) [1..<1])))
          (Num 2)
        \<in> set (constrs (fst (make_circuit_lp ''01'' ''XOR NOT'' None)))
   \<and> Ge (Plus (Plus (Num 0) (Neg (table_sum 1 2 1))) (Neg (r_sum 1 2)))
          (Minus (Num (- 1)) (Times 3 (Minus (Num 1) (Var (P_var 1 2)))))
        \<in> set (constrs (fst (make_circuit_lp ''01'' ''XOR NOT'' None)))"
proof -
  have h: "length ''01'' = 2 ^ 1" "list_all is_digit ''01''" "(1::nat) \<le> 1"
    "1 \<le> length (split_sp ''XOR NOT'')"
    by (simp_all add: is_digit_def)
  have s: "split_sp ''XOR NOT'' = [''XOR'', ''NOT'']" by simp
  have e: "(if split_sp ''XOR NOT'' ! (1 - 1) = ''NOT'' then 0 else - 1) = (- 1 :: int)"
    "int 1 + int (length (split_sp ''XOR NOT'')) = 3" "1 - (- 1) = (2::int)"
    by simp_all
  have r: "(1::nat) < length (split_sp ''XOR NOT'') \<and> (1::nat) \<le> 2 \<and> (2::nat) \<le> 2 ^ 1"
    by simp
  have p: "snd (make_circuit_lp ''01'' ''XOR NOT'' None) = Inr ''circuit.lp''" by code_simp
  note t = gate_tag_marker [OF h, of None, unfolded e]
  from t have 1: "gate_markers ''XOR NOT'' ! (1 - 1) = - 1" by blast
  from t have 2: "Le (Plus (Plus (Num 0) (xsum (map (\<lambda>el. Var (U_var el 1)) [1..<1 + 1])))
                (xsum (map (\<lambda>i. Var (V_var i 1)) [1..<1])))
          (Num 2)
        \<in> set (constrs (fst (make_circuit_lp ''01'' ''XOR NOT'' None)))" by blast
  from t r have 3: "Ge (Plus (Plus (Num 0) (Neg (table_sum 1 2 1))) (Neg (r_sum 1 2)))
          (Minus (Num (- 1)) (Times 3 (Minus (Num 1) (Var (P_var 1 2)))))
        \<in> set (constrs (fst (make_circuit_lp ''01'' ''XOR NOT'' None)))" by blast
  from h s p 1 2 3 show ?thesis by blast
qed

text \<open>
  Claim C6, as amended.  A call whose truth string has a length that is not a power of two
  fails with an exception, so that no model is written and \<open>solve_circuit_lp\<close> touches no
  file and runs no command; nothing is truncated or padded silently.  There is no
  validation of the length, though.  For a nonempty string of digits \<open>n\<close> is the integer
  part of the binary logarithm of the length, all the decision variables for \<open>n\<close> inputs
  are allocated, the constraints of the gates before the last and the final-gate
  constraints of the first \<open>2\<^sup>n\<close> rows are added, and the exception is the \<^verbatim>\<open>IndexError\<close> of
  \<^verbatim>\<open>table[j, el-1]\<close> on the next row.  Only the empty string (\<^verbatim>\<open>OverflowError\<close> at line 56)
  and a string with a character that is not a digit (\<^verbatim>\<open>ValueError\<close> at line 57) fail before
  any variable is allocated.
\<close>

theorem truth_length_not_power_of_two:
  assumes "\<forall>n. length truth \<noteq> 2 ^ n"
  shows "\<exists>e. snd (make_circuit_lp truth gates filename) = Inl e
    \<and> solve_circuit_lp E truth gates filename verbose delete_lp delete_log w = (Inl e, w)
    \<and> (truth = [] \<longrightarrow>
         e = OverflowError \<and> mvars (fst (make_circuit_lp truth gates filename)) = [])
    \<and> (truth \<noteq> [] \<and> \<not> list_all is_digit truth \<longrightarrow>
         e = ValueError \<and> mvars (fst (make_circuit_lp truth gates filename)) = [])
    \<and> (truth \<noteq> [] \<and> list_all is_digit truth \<longrightarrow>
         e = IndexError
         \<and> mvars (fst (make_circuit_lp truth gates filename))
             = alloc_all (ilog2 (length truth)) (length (split_sp gates))
         \<and> mvars (fst (make_circuit_lp truth gates filename)) \<noteq> []
         \<and> constrs (fst (make_circuit_lp truth gates filename))
             = gate_block (ilog2 (length truth)) (gate_markers gates)
               @ final_block (ilog2 (length truth)) (gate_markers gates)
                   (take (2 ^ ilog2 (length truth)) (map digit_val truth)))"
proof -
  have solve: "solve_circuit_lp E truth gates filename verbose delete_lp delete_log w = (Inl e, w)"
    if "make_circuit_lp truth gates (Some (norm_filename filename)) = (M, Inl e)" for M e
    using that by (simp add: solve_circuit_lp_def)
  consider (empty) "truth = []" | (bad) "truth \<noteq> []" "\<not> list_all is_digit truth"
    | (long) "truth \<noteq> []" "list_all is_digit truth"
    by blast
  then show ?thesis
  proof cases
    case empty
    then show ?thesis
      using solve [of Model OverflowError] by (simp add: make_circuit_lp_empty Model_def)
  next
    case bad
    then show ?thesis
      using solve [of Model ValueError] by (simp add: make_circuit_lp_non_digit Model_def)
  next
    case long
    let ?n = "ilog2 (length truth)"
    from long have pos: "0 < length truth" by simp
    from assms have ne: "length truth \<noteq> 2 ^ ?n" by blast
    note mk = make_circuit_lp_too_long [OF pos ne long(2)]
    from assms have "length truth \<noteq> 2 ^ 0" "length truth \<noteq> 2 ^ 1" by blast+
    then have "length truth \<noteq> 1" "length truth \<noteq> 2" by simp_all
    with pos have "3 \<le> length truth" by linarith
    then have "1 \<le> ?n" by (rule ilog2_pos)
    moreover have "1 \<le> length (gate_markers gates)"
      using gate_markers_nonempty [of gates] by (simp add: Suc_le_eq)
    ultimately have "alloc_all ?n (length (gate_markers gates)) \<noteq> []"
      by (rule alloc_all_nonempty)
    moreover have "length (gate_markers gates) = length (split_sp gates)"
      by (simp add: gate_markers_def)
    ultimately show ?thesis
      using long solve [OF mk] by (simp add: mk)
  qed
qed

text \<open>Three truth values and one inverter: \<open>n = 1\<close>, one variable, two constraints, then the error.\<close>

theorem truth_length_not_power_of_two_witness:
  "(\<forall>n. length ''010'' \<noteq> 2 ^ n)
   \<and> snd (make_circuit_lp ''010'' ''NOT'' None) = Inl IndexError
   \<and> mvars (fst (make_circuit_lp ''010'' ''NOT'' None)) = [U_var 1 1]
   \<and> length (constrs (fst (make_circuit_lp ''010'' ''NOT'' None))) = 2"
proof -
  have "length ''010'' = 3" by simp
  with three_not_power have h: "\<forall>n. length ''010'' \<noteq> 2 ^ n" by metis
  have d: "''010'' \<noteq> [] \<and> list_all is_digit ''010''" by (simp add: is_digit_def)
  from truth_length_not_power_of_two [OF h, of "''NOT''" None] d
  have 1: "snd (make_circuit_lp ''010'' ''NOT'' None) = Inl IndexError" by metis
  have 2: "mvars (fst (make_circuit_lp ''010'' ''NOT'' None)) = [U_var 1 1]" by code_simp
  have 3: "length (constrs (fst (make_circuit_lp ''010'' ''NOT'' None))) = 2" by code_simp
  from h 1 2 3 show ?thesis by blast
qed

text \<open>
  Claim C6 as stated fails: with three truth values the call is left by an \<^verbatim>\<open>IndexError\<close>
  when the variable \<open>u.1.1\<close> has been allocated and two constraints have been added.
\<close>

theorem no_length_validation:
  "make_circuit_lp ''010'' ''NOT'' None
   = (\<lparr>mvars = [U_var 1 1],
       objective = Plus (xsum [xsum [Var (U_var 1 1)]]) (xsum [xsum []]),
       constrs = [Ge (Plus (Plus (Num 0) (xsum [Times 0 (Var (U_var 1 1))])) (xsum [])) (Num 1),
                  Ge (Plus (Plus (Num 0) (Neg (xsum [Times 1 (Var (U_var 1 1))]))) (Neg (xsum [])))
                     (Num 0)]\<rparr>,
      Inl IndexError)"
  by code_simp

text \<open>
  Claim C7.  Let \<open>make_circuit_lp\<close> have written the model and let \<open>f\<close> be the lines of the
  log file once the solver has run.  If no line of \<open>f\<close> has the field \<^verbatim>\<open>'\t(obj:1)\n'\<close>, as
  when the solver reports that there is no feasible solution, \<open>solve_circuit_lp\<close> returns
  the empty list.  Whenever it returns a list, the list's elements are, one for one and
  in the order of the log, the connections \<^verbatim>\<open>(line[0], int(line[-2]))\<close> of the lines that
  have the field.
\<close>

theorem infeasible_gives_empty_list:
  assumes "make_circuit_lp truth gates (Some (norm_filename filename)) = (M, Inr path)"
    and "files (run_solver E (norm_filename filename) path M verbose w) (norm_filename filename @ ''.log'')
         = Some f"
  shows "((\<forall>l \<in> set f. obj_mark \<notin> set (split_sp l)) \<longrightarrow>
           fst (solve_circuit_lp E truth gates filename verbose delete_lp delete_log w) = Inr [])
    \<and> (\<forall>connect.
          fst (solve_circuit_lp E truth gates filename verbose delete_lp delete_log w) = Inr connect
          \<longrightarrow> map Inr connect
               = map (\<lambda>l. connection (split_sp l))
                   (filter (\<lambda>l. obj_mark \<in> set (split_sp l)) f))"
  unfolding solve_circuit_lp_decodes [OF assms]
  using decode_loop_unmarked [of f] decode_loop_Inr [of f] by blast


text \<open>
  The model for \<^verbatim>\<open>'10'\<close> and \<^verbatim>\<open>'NAND NOT'\<close> with a solver that reports infeasibility, and the
  model of the two-inverter circuit with a solver that lists its two connections.
\<close>

theorem infeasible_gives_empty_list_witness:
  "snd (make_circuit_lp ''10'' ''NAND NOT'' (Some (norm_filename None))) = Inr ''circuit.lp''
   \<and> files (run_solver (example_env infeasible_log) (norm_filename None) ''circuit.lp''
         (fst (make_circuit_lp ''10'' ''NAND NOT'' (Some (norm_filename None)))) False empty_world)
        (norm_filename None @ ''.log'') = Some infeasible_log
   \<and> list_all (\<lambda>l. obj_mark \<notin> set (split_sp l)) infeasible_log
   \<and> fst (solve_circuit_lp (example_env infeasible_log) ''10'' ''NAND NOT'' None False True True
        empty_world) = Inr []
   \<and> fst (solve_circuit_lp (example_env solved_log) ''01'' ''NOT NOT'' None False True True
        empty_world) = Inr [(''u.1.1'', 1), (''v.1.2'', 1)]
   \<and> filter (\<lambda>l. obj_mark \<in> set (split_sp l)) solved_log = [solved_log ! 1, solved_log ! 2]"
proof -
  let ?M = "fst (make_circuit_lp ''10'' ''NAND NOT'' (Some (norm_filename None)))"
  have 1: "snd (make_circuit_lp ''10'' ''NAND NOT'' (Some (norm_filename None))) = Inr ''circuit.lp''"
    by code_simp
  then have h1: "make_circuit_lp ''10'' ''NAND NOT'' (Some (norm_filename None))
      = (?M, Inr ''circuit.lp'')"
    by (simp add: prod_eq_iff)
  have h2: "files (run_solver (example_env infeasible_log) (norm_filename None) ''circuit.lp''
         ?M False empty_world) (norm_filename None @ ''.log'') = Some infeasible_log"
    by (simp add: run_solver_def norm_filename_def example_env_def example_shell_def
        empty_world_def log_event_def os_system_def scip_command_def Let_def)
  have 3: "list_all (\<lambda>l. obj_mark \<notin> set (split_sp l)) infeasible_log" by code_simp
  then have "\<forall>l \<in> set infeasible_log. obj_mark \<notin> set (split_sp l)" by (simp add: list_all_iff)
  with infeasible_gives_empty_list [OF h1 h2, of True True]
  have 4: "fst (solve_circuit_lp (example_env infeasible_log) ''10'' ''NAND NOT'' None False True True
        empty_world) = Inr []" by blast
  have 5: "fst (solve_circuit_lp (example_env solved_log) ''01'' ''NOT NOT'' None False True True
        empty_world) = Inr [(''u.1.1'', 1), (''v.1.2'', 1)]" by code_simp
  have 6: "filter (\<lambda>l. obj_mark \<in> set (split_sp l)) solved_log = [solved_log ! 1, solved_log ! 2]"
    by code_simp
  from 1 h2 3 4 5 6 show ?thesis by blast
qed

text \<open>
  Claim C8, as amended.  The decoding loop is a function of the log's lines: a line
  without the field \<^verbatim>\<open>'\t(obj:1)\n'\<close> is ignored, whatever its shape.  When every line with
  the field has two fields or more and, in the field before the last, a string that
  \<^verbatim>\<open>int\<close> accepts (whitespace, a sign, digits with single underscores, 4300 digits at
  most), the loop returns the connection of each of them, in order.  Otherwise it is left by
  the built-in exception of the first line that is not so, an \<^verbatim>\<open>IndexError\<close> of
  \<^verbatim>\<open>line[-2]\<close> (a line of one field) or a \<^verbatim>\<open>ValueError\<close> of \<^verbatim>\<open>int\<close> (a value that is not an
  integer): nothing is recovered, no line is skipped, and no decoding error of the
  program's own is raised.
\<close>

theorem decoding_exceptions:
  "decode_loop [] f
     = emap (\<lambda>l. connection (split_sp l)) (filter (\<lambda>l. obj_mark \<in> set (split_sp l)) f)
   \<and> (\<forall>line. connection line =
         (if length line < 2 then Inl IndexError
          else case py_int (line ! (length line - 2)) of
                 Inl e \<Rightarrow> Inl ValueError
               | Inr val \<Rightarrow> Inr (line ! 0, val)))
   \<and> ((\<forall>l \<in> set f. obj_mark \<in> set (split_sp l) \<longrightarrow> (\<exists>c. connection (split_sp l) = Inr c))
        \<longrightarrow> (\<exists>connect. decode_loop [] f = Inr connect
               \<and> length connect = length (filter (\<lambda>l. obj_mark \<in> set (split_sp l)) f)))
   \<and> ((\<exists>l \<in> set f. obj_mark \<in> set (split_sp l) \<and> (\<exists>e. connection (split_sp l) = Inl e))
        \<longrightarrow> decode_loop [] f = Inl IndexError \<or> decode_loop [] f = Inl ValueError)"
proof -
  let ?marked = "\<lambda>l. obj_mark \<in> set (split_sp l)"
  let ?conn = "\<lambda>l. connection (split_sp l)"
  have 1: "decode_loop [] f = emap ?conn (filter ?marked f)"
    by (simp add: decode_loop_filter ebind_Inr_right)
  have 3: "\<exists>connect. decode_loop [] f = Inr connect \<and> length connect = length (filter ?marked f)"
    if "\<forall>l \<in> set f. ?marked l \<longrightarrow> (\<exists>c. ?conn l = Inr c)"
  proof (cases "emap ?conn (filter ?marked f)")
    case (Inl e)
    then obtain l where "l \<in> set (filter ?marked f)" "?conn l = Inl e"
      using emap_Inl_source by fastforce
    with that show ?thesis by auto
  next
    case (Inr cs)
    from emap_Inr_map [OF this] have "length cs = length (filter ?marked f)"
      using length_map by metis
    with Inr 1 show ?thesis by simp
  qed
  have 4: "decode_loop [] f = Inl IndexError \<or> decode_loop [] f = Inl ValueError"
    if "\<exists>l \<in> set f. ?marked l \<and> (\<exists>e. ?conn l = Inl e)"
  proof -
    from that obtain l e where "l \<in> set (filter ?marked f)" "?conn l = Inl e" by auto
    then obtain e' where e': "emap ?conn (filter ?marked f) = Inl e'"
      using emap_Inl_exists by fastforce
    then obtain l' where "?conn l' = Inl e'" using emap_Inl_source by fastforce
    then have "e' = IndexError \<or> e' = ValueError" by (rule connection_error)
    with e' 1 show ?thesis by auto
  qed
  from 1 connection_cases 3 4 show ?thesis by blast
qed

text \<open>
  The listing of the two-inverter circuit decodes to its two connections; the listing
  whose second value is the word \<^verbatim>\<open>one\<close> ends the loop with a \<^verbatim>\<open>ValueError\<close>.  A value
  with the separator 28 before the digit is refused as \<^verbatim>\<open>int\<close> refuses it, and one with
  a no-break space before the digit is read as \<^verbatim>\<open>int\<close> reads it.
\<close>

theorem decoding_exceptions_witness:
  "list_all (\<lambda>l. obj_mark \<in> set (split_sp l) \<and> connection (split_sp l) \<noteq> Inl IndexError
                \<and> connection (split_sp l) \<noteq> Inl ValueError)
     (filter (\<lambda>l. obj_mark \<in> set (split_sp l)) solved_log)
   \<and> decode_loop [] solved_log = Inr [(''u.1.1'', 1), (''v.1.2'', 1)]
   \<and> obj_mark \<in> set (split_sp (corrupt_log ! 1))
   \<and> connection (split_sp (corrupt_log ! 1)) = Inl ValueError
   \<and> decode_loop [] corrupt_log = Inl ValueError
   \<and> connection [''u.1.1'', [CHR 0x1C, CHR ''1''], obj_mark] = Inl ValueError
   \<and> connection [''u.1.1'', [CHR 0xA0, CHR ''1''], obj_mark] = Inr (''u.1.1'', 1)"
proof -
  have 1: "list_all (\<lambda>l. obj_mark \<in> set (split_sp l) \<and> connection (split_sp l) \<noteq> Inl IndexError
                \<and> connection (split_sp l) \<noteq> Inl ValueError)
     (filter (\<lambda>l. obj_mark \<in> set (split_sp l)) solved_log)"
    by code_simp
  have 2: "decode_loop [] solved_log = Inr [(''u.1.1'', 1), (''v.1.2'', 1)]" by code_simp
  have 3: "obj_mark \<in> set (split_sp (corrupt_log ! 1))" by code_simp
  have 4: "connection (split_sp (corrupt_log ! 1)) = Inl ValueError" by code_simp
  have "corrupt_log ! 1 \<in> set corrupt_log" by (simp add: corrupt_log_def)
  with 3 4 have "\<exists>l \<in> set corrupt_log. obj_mark \<in> set (split_sp l)
      \<and> (\<exists>e. connection (split_sp l) = Inl e)" by blast
  with decoding_exceptions [of corrupt_log]
  have "decode_loop [] corrupt_log = Inl IndexError \<or> decode_loop [] corrupt_log = Inl ValueError"
    by blast
  moreover have "decode_loop [] corrupt_log \<noteq> Inl IndexError" by code_simp
  ultimately have 5: "decode_loop [] corrupt_log = Inl ValueError" by blast
  have 6: "connection [''u.1.1'', [CHR 0x1C, CHR ''1''], obj_mark] = Inl ValueError"
    by code_simp
  have 7: "connection [''u.1.1'', [CHR 0xA0, CHR ''1''], obj_mark] = Inr (''u.1.1'', 1)"
    by code_simp
  from 1 2 3 4 5 6 7 show ?thesis by blast
qed

text \<open>
  Claim C8 as stated fails on the very line it names: a line with the field and the value
  \<^verbatim>\<open>one\<close> makes \<^verbatim>\<open>int\<close> raise a \<^verbatim>\<open>ValueError\<close> that nothing catches, so the loop and
  \<open>solve_circuit_lp\<close> with it are left by that exception, and the well-formed first line
  is not recovered.  A line that consists of the field alone raises an \<^verbatim>\<open>IndexError\<close>.
\<close>

theorem decoding_crashes_on_bad_value:
  "obj_mark \<in> set (split_sp (corrupt_log ! 1))
   \<and> py_int (split_sp (corrupt_log ! 1) ! (length (split_sp (corrupt_log ! 1)) - 2)) = Inl ValueError
   \<and> decode_loop [] corrupt_log = Inl ValueError
   \<and> fst (solve_circuit_lp (example_env corrupt_log) ''01'' ''NOT NOT'' None False True True
        empty_world) = Inl ValueError
   \<and> decode_loop [] [obj_mark] = Inl IndexError"
  by code_simp





end
